theory Spec2Isabelle
  imports Complex_Main
begin

section \<open>Strings and the time pattern\<close>

text \<open>
  A JavaScript string is modelled as a \<^typ>\<open>string\<close>, one \<^typ>\<open>char\<close> per code unit.
  The pattern of \<open>validateTimeFormat\<close> and the built-ins \<open>split\<close> and \<open>parseInt\<close>
  only compare code units with ASCII characters, so a code unit beyond the range of
  \<^typ>\<open>char\<close> behaves like any other character that is neither a digit, a sign, a colon
  nor white space.
\<close>

definition char_in :: "char \<Rightarrow> char \<Rightarrow> char \<Rightarrow> bool" where
  \<comment> \<open>the character class \<open>[lo-hi]\<close>\<close>
  "char_in lo hi c = ((of_char lo :: nat) \<le> of_char c \<and> (of_char c :: nat) \<le> of_char hi)"

text \<open>
  The fragment of regular expressions that the pattern
  \<^verbatim>\<open>/^([0-1][0-9]|2[0-3]):[0-5][0-9]$/\<close> uses: a literal character, a character class
  given by a range, concatenation and alternation.
\<close>

datatype regex =
    Lit char
  | Range char char
  | Seq regex regex
  | Alt regex regex

text \<open>
  \<open>rx_match r s\<close> lists what is left of \<open>s\<close> after each way of matching \<open>r\<close> at its
  beginning, in the order in which a backtracking matcher tries them.
\<close>

fun rx_match :: "regex \<Rightarrow> string \<Rightarrow> string list" where
  "rx_match (Lit c) s = (case s of [] \<Rightarrow> [] | x # xs \<Rightarrow> if x = c then [xs] else [])"
| "rx_match (Range lo hi) s = (case s of [] \<Rightarrow> [] | x # xs \<Rightarrow> if char_in lo hi x then [xs] else [])"
| "rx_match (Seq r1 r2) s = concat (map (rx_match r2) (rx_match r1 s))"
| "rx_match (Alt r1 r2) s = rx_match r1 s @ rx_match r2 s"

definition rx_test_anchored :: "regex \<Rightarrow> string \<Rightarrow> bool" where
  \<comment> \<open>\<open>/^r$/.test(s)\<close> without the multiline flag: the match starts at the first
      code unit and ends after the last one\<close>
  "rx_test_anchored r s = ([] \<in> set (rx_match r s))"

definition timePattern :: regex where
  "timePattern =
     Seq (Alt (Seq (Range (CHR ''0'') (CHR ''1'')) (Range (CHR ''0'') (CHR ''9'')))
              (Seq (Lit (CHR ''2'')) (Range (CHR ''0'') (CHR ''3''))))
         (Seq (Lit (CHR '':''))
              (Seq (Range (CHR ''0'') (CHR ''5'')) (Range (CHR ''0'') (CHR ''9''))))"

definition validateTimeFormat :: "string \<Rightarrow> bool" where
  "validateTimeFormat timeString = rx_test_anchored timePattern timeString"

subsection \<open>The shape the specification describes\<close>

definition is_digit :: "char \<Rightarrow> bool" where
  "is_digit c = char_in (CHR ''0'') (CHR ''9'') c"

definition digit_val :: "char \<Rightarrow> nat" where
  "digit_val c = of_char c - 48"

definition spec_time_shape :: "string \<Rightarrow> bool" where
  \<comment> \<open>the specification's words: two digits, a colon, two digits, the hour digits
      encoding 00 to 23 and the minute digits 00 to 59\<close>
  "spec_time_shape s =
     (\<exists>a b c d. s = [a, b, CHR '':'', c, d]
        \<and> is_digit a \<and> is_digit b \<and> is_digit c \<and> is_digit d
        \<and> 10 * digit_val a + digit_val b \<le> 23
        \<and> 10 * digit_val c + digit_val d \<le> 59)"

section \<open>Numbers\<close>

text \<open>
  A JavaScript number is an IEEE 754 binary64 value: not-a-number, an infinity, or a
  finite value, which is a rational number. The negative zero is identified with
  zero: the program compares, adds and multiplies zeros but never divides by one or
  prints its sign.
\<close>

datatype jsnum = NaN | NegInf | PosInf | Fin rat

fun bit_length :: "nat \<Rightarrow> nat" where
  "bit_length n = (if n = 0 then 0 else Suc (bit_length (n div 2)))"

declare bit_length.simps [simp del]

definition ilog2 :: "rat \<Rightarrow> int" where
  \<comment> \<open>the binary exponent of a non-zero \<open>x\<close>: \<open>2 powi ilog2 x \<le> \<bar>x\<bar> < 2 powi (ilog2 x + 1)\<close>\<close>
  "ilog2 x =
     (if 1 \<le> \<bar>x\<bar> then int (bit_length (nat \<lfloor>\<bar>x\<bar>\<rfloor>)) - 1
      else - int (bit_length (nat (\<lceil>1 / \<bar>x\<bar>\<rceil> - 1))))"

definition round_even :: "rat \<Rightarrow> int" where
  \<comment> \<open>the nearest integer, the even one of two that are equally near\<close>
  "round_even y =
     (let f = \<lfloor>y\<rfloor>; d = y - of_int f
      in if d < 1 / 2 then f else if 1 / 2 < d then f + 1 else if even f then f else f + 1)"

definition rnd :: "rat \<Rightarrow> rat" where
  \<comment> \<open>round to nearest, ties to even, with a significand of 53 bits and no exponent
      below that of the subnormal numbers\<close>
  "rnd x =
     (if x = 0 then 0
      else let q = max (ilog2 x - 52) (- 1074)
           in of_int (round_even (x / 2 powi q)) * 2 powi q)"

definition fl :: "rat \<Rightarrow> jsnum" where
  \<comment> \<open>the number that an operation with the exact result \<open>x\<close> returns\<close>
  "fl x =
     (let r = rnd x
      in if 2 ^ 1024 \<le> r then PosInf else if r \<le> - (2 ^ 1024) then NegInf else Fin r)"

definition isNaN :: "jsnum \<Rightarrow> bool" where
  "isNaN x = (x = NaN)"

fun jlt :: "jsnum \<Rightarrow> jsnum \<Rightarrow> bool" where
  "jlt NaN y = False"
| "jlt x NaN = False"
| "jlt (Fin a) (Fin b) = (a < b)"
| "jlt x NegInf = False"
| "jlt NegInf y = True"
| "jlt PosInf y = False"
| "jlt x PosInf = True"

fun jle :: "jsnum \<Rightarrow> jsnum \<Rightarrow> bool" where
  "jle NaN y = False"
| "jle x NaN = False"
| "jle (Fin a) (Fin b) = (a \<le> b)"
| "jle NegInf y = True"
| "jle x PosInf = True"
| "jle x NegInf = False"
| "jle PosInf y = False"

definition jgt :: "jsnum \<Rightarrow> jsnum \<Rightarrow> bool" where
  "jgt x y = jlt y x"

definition jge :: "jsnum \<Rightarrow> jsnum \<Rightarrow> bool" where
  "jge x y = jle y x"

fun jneg :: "jsnum \<Rightarrow> jsnum" where
  "jneg NaN = NaN"
| "jneg NegInf = PosInf"
| "jneg PosInf = NegInf"
| "jneg (Fin a) = Fin (- a)"

fun jadd :: "jsnum \<Rightarrow> jsnum \<Rightarrow> jsnum" where
  "jadd NaN y = NaN"
| "jadd x NaN = NaN"
| "jadd (Fin a) (Fin b) = fl (a + b)"
| "jadd PosInf NegInf = NaN"
| "jadd NegInf PosInf = NaN"
| "jadd PosInf y = PosInf"
| "jadd NegInf y = NegInf"
| "jadd x PosInf = PosInf"
| "jadd x NegInf = NegInf"

definition jsub :: "jsnum \<Rightarrow> jsnum \<Rightarrow> jsnum" where
  "jsub x y = jadd x (jneg y)"

fun jsign_mul :: "jsnum \<Rightarrow> rat \<Rightarrow> jsnum" where
  \<comment> \<open>an infinity times a finite number\<close>
  "jsign_mul x b = (if b = 0 then NaN else if 0 < b then x else jneg x)"

fun jmul :: "jsnum \<Rightarrow> jsnum \<Rightarrow> jsnum" where
  "jmul NaN y = NaN"
| "jmul x NaN = NaN"
| "jmul (Fin a) (Fin b) = fl (a * b)"
| "jmul (Fin a) y = jsign_mul y a"
| "jmul x (Fin b) = jsign_mul x b"
| "jmul PosInf y = y"
| "jmul NegInf y = jneg y"

fun jdiv :: "jsnum \<Rightarrow> jsnum \<Rightarrow> jsnum" where
  "jdiv NaN y = NaN"
| "jdiv x NaN = NaN"
| "jdiv (Fin a) (Fin b) =
     (if b = 0 then (if a = 0 then NaN else if 0 < a then PosInf else NegInf)
      else fl (a / b))"
| "jdiv (Fin a) y = Fin 0"
| "jdiv x (Fin b) = (if 0 \<le> b then x else jneg x)"
| "jdiv x y = NaN"

definition trunc :: "rat \<Rightarrow> int" where
  "trunc y = (if 0 \<le> y then \<lfloor>y\<rfloor> else \<lceil>y\<rceil>)"

fun jmod :: "jsnum \<Rightarrow> jsnum \<Rightarrow> jsnum" where
  \<comment> \<open>the remainder operator \<open>%\<close>: exact, with the sign of the dividend\<close>
  "jmod (Fin a) (Fin b) = (if b = 0 then NaN else Fin (a - b * of_int (trunc (a / b))))"
| "jmod (Fin a) PosInf = Fin a"
| "jmod (Fin a) NegInf = Fin a"
| "jmod x y = NaN"

section \<open>The built-ins that read numbers and split strings\<close>

definition is_space :: "char \<Rightarrow> bool" where
  \<comment> \<open>white space and line terminators among the first 256 code units\<close>
  "is_space c = ((of_char c :: nat) \<in> {9, 10, 11, 12, 13, 32, 160})"

definition digits_val :: "string \<Rightarrow> nat" where
  "digits_val ds = foldl (\<lambda>acc c. 10 * acc + digit_val c) 0 ds"

definition strip_sign :: "string \<Rightarrow> rat \<times> string" where
  "strip_sign s =
     (case s of
        [] \<Rightarrow> (1, [])
      | c # r \<Rightarrow> if c = CHR ''-'' then (- 1, r) else if c = CHR ''+'' then (1, r) else (1, s))"

definition parseInt10 :: "string \<Rightarrow> jsnum" where
  \<comment> \<open>\<open>parseInt(s, 10)\<close>: leading white space, a sign, then the longest run of digits\<close>
  "parseInt10 s =
     (let (sign, r) = strip_sign (dropWhile is_space s);
          ds = takeWhile is_digit r
      in if ds = [] then NaN else fl (sign * of_nat (digits_val ds)))"

definition exponent_part :: "string \<Rightarrow> int" where
  \<comment> \<open>the exponent that follows a mantissa, 0 when none is well formed\<close>
  "exponent_part s =
     (case s of
        [] \<Rightarrow> 0
      | c # r \<Rightarrow>
          if c = CHR ''e'' \<or> c = CHR ''E'' then
            (let (sign, r') = strip_sign r; ds = takeWhile is_digit r'
             in if ds = [] then 0 else \<lfloor>sign\<rfloor> * int (digits_val ds))
          else 0)"

definition parseFloat :: "string \<Rightarrow> jsnum" where
  \<comment> \<open>\<open>parseFloat(s)\<close>: leading white space, then the longest prefix that is a decimal
      literal (\<open>Infinity\<close>, or digits with an optional fraction and exponent)\<close>
  "parseFloat s =
     (let (sign, r) = strip_sign (dropWhile is_space s)
      in if take 8 r = ''Infinity'' then (if 0 < sign then PosInf else NegInf)
         else
           let ip = takeWhile is_digit r;
               r1 = dropWhile is_digit r;
               fp = (case r1 of [] \<Rightarrow> [] | c # t \<Rightarrow> if c = CHR ''.'' then takeWhile is_digit t else []);
               r2 = (case r1 of [] \<Rightarrow> [] | c # t \<Rightarrow> if c = CHR ''.'' then dropWhile is_digit t else r1)
           in if ip = [] \<and> fp = [] then NaN
              else fl (sign * (of_nat (digits_val ip) + of_nat (digits_val fp) / 10 ^ length fp)
                         * 10 powi exponent_part r2))"

fun split_on :: "char \<Rightarrow> string \<Rightarrow> string list" where
  \<comment> \<open>\<open>s.split(c)\<close> for a separator of one character\<close>
  "split_on c [] = [[]]"
| "split_on c (x # xs) =
     (if x = c then [] # split_on c xs
      else case split_on c xs of [] \<Rightarrow> [[x]] | p # ps \<Rightarrow> (x # p) # ps)"

section \<open>The wage calculator\<close>

text \<open>
  \<open>calculateWage\<close> is modelled from its step 2 on. Its arguments are the values of the
  locals \<open>baseWageInput\<close>, \<open>startTimeInput\<close> and \<open>endTimeInput\<close> as step 1 leaves them:
  the contents of the three input fields, the two time fields trimmed. Its result is
  what the function has computed when it stops: the error of the alert it shows (the
  three alerts are \<open>InvalidTimeFormat\<close>, \<open>InvalidRate\<close> and, after the conversion,
  \<open>InvalidTime\<close>), or the values of the locals that step 10 formats into the page.
  Reading the fields and writing the result element are effects on the document and are
  not part of the model.
\<close>

definition timeToDecimal :: "string \<Rightarrow> jsnum" where
  "timeToDecimal timeString =
     (let timeParts = split_on (CHR '':'') timeString
      in if length timeParts \<noteq> 2 then NaN
         else
           let hours = parseInt10 (timeParts ! 0);
               minutes = parseInt10 (timeParts ! 1)
           in if isNaN hours \<or> isNaN minutes
                 \<or> jlt hours (Fin 0) \<or> jgt hours (Fin 23)
                 \<or> jlt minutes (Fin 0) \<or> jgt minutes (Fin 59)
              then NaN
              else jadd hours (jdiv minutes (Fin 60)))"

datatype wage_error = InvalidTimeFormat | InvalidRate | InvalidTime

record wage_breakdown =
  totalHours :: jsnum
  nightHours :: jsnum
  normalHours :: jsnum
  normalPay :: jsnum
  nightPay :: jsnum
  totalPay :: jsnum

definition timeStep :: jsnum where
  "timeStep = Fin (1 / 4)"

text \<open>
  The sweep of step 7. Its state is the loop variable \<open>currentTime\<close> and the
  accumulator \<open>nightHours\<close>; the last argument counts the iterations executed and is
  not a variable of the program. A sweep that never ends has the value \<open>None\<close>.
\<close>

partial_function (option) night_sweep ::
  "jsnum \<Rightarrow> jsnum \<Rightarrow> jsnum \<Rightarrow> jsnum \<Rightarrow> nat \<Rightarrow> (jsnum \<times> nat) option" where
  "night_sweep startTimeDecimal totalHrs currentTime nightHrs iterations =
     (if jlt currentTime totalHrs then
        night_sweep startTimeDecimal totalHrs (jadd currentTime timeStep)
          (if jge (jmod (jadd startTimeDecimal currentTime) (Fin 24)) (Fin 22)
              \<or> jlt (jmod (jadd startTimeDecimal currentTime) (Fin 24)) (Fin 5)
           then jadd nightHrs timeStep else nightHrs)
          (Suc iterations)
      else Some (nightHrs, iterations))"

declare night_sweep.simps [code]

definition computeTotalHours :: "jsnum \<Rightarrow> jsnum \<Rightarrow> jsnum" where
  \<comment> \<open>step 6\<close>
  "computeTotalHours startTimeDecimal endTimeDecimal =
     (if jge endTimeDecimal startTimeDecimal then jsub endTimeDecimal startTimeDecimal
      else jadd (jsub (Fin 24) startTimeDecimal) endTimeDecimal)"

definition calculateWage :: "string \<Rightarrow> string \<Rightarrow> string \<Rightarrow> (wage_error + wage_breakdown) option" where
  "calculateWage baseWageInput startTimeInput endTimeInput =
     (let baseWage = parseFloat baseWageInput;
          isStartTimeValid = validateTimeFormat startTimeInput;
          isEndTimeValid = validateTimeFormat endTimeInput
      in if \<not> isStartTimeValid \<or> \<not> isEndTimeValid then Some (Inl InvalidTimeFormat)
         else if isNaN baseWage \<or> jle baseWage (Fin 0) then Some (Inl InvalidRate)
         else
           let startTimeDecimal = timeToDecimal startTimeInput;
               endTimeDecimal = timeToDecimal endTimeInput
           in if isNaN startTimeDecimal \<or> isNaN endTimeDecimal then Some (Inl InvalidTime)
              else
                let totalHrs = computeTotalHours startTimeDecimal endTimeDecimal
                in case night_sweep startTimeDecimal totalHrs (Fin 0) (Fin 0) 0 of
                     None \<Rightarrow> None
                   | Some (nightHrs, iterations) \<Rightarrow>
                       let normalHrs = jsub totalHrs nightHrs;
                           normalPay = jmul normalHrs baseWage;
                           nightPay = jmul (jmul nightHrs baseWage) (Fin (5 / 4));
                           totalPay = jadd normalPay nightPay
                       in Some (Inr \<lparr>totalHours = totalHrs, nightHours = nightHrs,
                                      normalHours = normalHrs, normalPay = normalPay,
                                      nightPay = nightPay, totalPay = totalPay\<rparr>))"

section \<open>Reading a validated time\<close>

text \<open>
  The hour and the minute that the digits of a string of the shape \<open>HH:MM\<close> encode, and
  the value \<open>hours + minutes / 60\<close> as binary64 arithmetic computes it: the quotient
  is rounded, then the sum.
\<close>

definition hour_of :: "string \<Rightarrow> nat" where
  "hour_of s = 10 * digit_val (s ! 0) + digit_val (s ! 1)"

definition minute_of :: "string \<Rightarrow> nat" where
  "minute_of s = 10 * digit_val (s ! 3) + digit_val (s ! 4)"

definition decimalHours :: "nat \<Rightarrow> nat \<Rightarrow> rat" where
  "decimalHours h m = rnd (of_nat h + rnd (of_nat m / 60))"

section \<open>The buckets of the sweep\<close>

text \<open>
  The sweep samples the offsets \<open>0, 1/4, 2/4, \<dots>\<close> below \<open>totalHours\<close>. The sample
  number \<open>i\<close> is classified by the test of step 7 at \<open>currentTime = i / 4\<close>; there are
  \<open>bucket_count t\<close> samples below \<open>t\<close>.
\<close>

definition night_at :: "jsnum \<Rightarrow> nat \<Rightarrow> bool" where
  "night_at startTimeDecimal i =
     (jge (jmod (jadd startTimeDecimal (Fin (of_nat i / 4))) (Fin 24)) (Fin 22)
      \<or> jlt (jmod (jadd startTimeDecimal (Fin (of_nat i / 4))) (Fin 24)) (Fin 5))"

definition bucket_count :: "rat \<Rightarrow> nat" where
  "bucket_count t = nat \<lceil>4 * t\<rceil>"

definition night_buckets :: "jsnum \<Rightarrow> nat \<Rightarrow> nat \<Rightarrow> nat" where
  "night_buckets startTimeDecimal i n = length (filter (night_at startTimeDecimal) [i..<n])"

section \<open>The elapsed hours as computed\<close>

definition elapsed :: "rat \<Rightarrow> rat \<Rightarrow> rat" where
  \<comment> \<open>the finite value of step 6 for finite decimal hours: each difference and sum is
      rounded\<close>
  "elapsed s e = (if s \<le> e then rnd (e - s) else rnd (rnd (24 - s) + e))"

section \<open>The quantities of a shift given by two validated strings\<close>

definition time_value :: "string \<Rightarrow> rat" where
  \<comment> \<open>the decimal hours of a validated string\<close>
  "time_value s = decimalHours (hour_of s) (minute_of s)"

definition shift_hours :: "string \<Rightarrow> string \<Rightarrow> rat" where
  \<comment> \<open>the value of \<open>totalHours\<close> for a start and an end string\<close>
  "shift_hours s e = elapsed (time_value s) (time_value e)"

definition shift_night_buckets :: "string \<Rightarrow> string \<Rightarrow> nat" where
  \<comment> \<open>the number of samples of the sweep that are classified as night\<close>
  "shift_night_buckets s e =
     night_buckets (Fin (time_value s)) 0 (bucket_count (shift_hours s e))"

definition rate_accepted :: "string \<Rightarrow> bool" where
  \<comment> \<open>the rate passes the check of step 4\<close>
  "rate_accepted r = (\<not> isNaN (parseFloat r) \<and> \<not> jle (parseFloat r) (Fin 0))"

definition wage_of :: "jsnum \<Rightarrow> rat \<Rightarrow> nat \<Rightarrow> wage_breakdown" where
  \<comment> \<open>steps 8 and 9 for a rate, the total hours and the number of night samples\<close>
  "wage_of baseWage t n =
     \<lparr>totalHours = Fin t, nightHours = Fin (of_nat n / 4),
      normalHours = jsub (Fin t) (Fin (of_nat n / 4)),
      normalPay = jmul (jsub (Fin t) (Fin (of_nat n / 4))) baseWage,
      nightPay = jmul (jmul (Fin (of_nat n / 4)) baseWage) (Fin (5 / 4)),
      totalPay = jadd (jmul (jsub (Fin t) (Fin (of_nat n / 4))) baseWage)
                      (jmul (jmul (Fin (of_nat n / 4)) baseWage) (Fin (5 / 4)))\<rparr>"

section \<open>Validation of time strings\<close>

lemma in_rx_match_Lit: "xs \<in> set (rx_match (Lit c) s) \<longleftrightarrow> s = c # xs"
  by (cases s) auto

lemma in_rx_match_Range:
  "xs \<in> set (rx_match (Range lo hi) s) \<longleftrightarrow> (\<exists>x. s = x # xs \<and> char_in lo hi x)"
  by (cases s) auto

lemma in_rx_match_Seq:
  "xs \<in> set (rx_match (Seq r1 r2) s) \<longleftrightarrow>
     (\<exists>m. m \<in> set (rx_match r1 s) \<and> xs \<in> set (rx_match r2 m))"
  by auto

lemma in_rx_match_Alt:
  "xs \<in> set (rx_match (Alt r1 r2) s) \<longleftrightarrow>
     xs \<in> set (rx_match r1 s) \<or> xs \<in> set (rx_match r2 s)"
  by simp

lemmas in_rx_match = in_rx_match_Lit in_rx_match_Range in_rx_match_Seq in_rx_match_Alt

lemma validateTimeFormat_iff:
  "validateTimeFormat s \<longleftrightarrow>
     (\<exists>a b c d. s = [a, b, CHR '':'', c, d]
        \<and> (char_in (CHR ''0'') (CHR ''1'') a \<and> char_in (CHR ''0'') (CHR ''9'') b
           \<or> a = CHR ''2'' \<and> char_in (CHR ''0'') (CHR ''3'') b)
        \<and> char_in (CHR ''0'') (CHR ''5'') c \<and> char_in (CHR ''0'') (CHR ''9'') d)"
  unfolding validateTimeFormat_def rx_test_anchored_def timePattern_def in_rx_match
  by blast

lemma char_two: "a = CHR ''2'' \<longleftrightarrow> (of_char a :: nat) = 50"
proof -
  have "(of_char (CHR ''2'') :: nat) = 50" by simp
  then show ?thesis by (metis of_char_eq_iff)
qed

lemma char_range_cases:
  "((char_in (CHR ''0'') (CHR ''1'') a \<and> char_in (CHR ''0'') (CHR ''9'') b
      \<or> a = CHR ''2'' \<and> char_in (CHR ''0'') (CHR ''3'') b)
     \<and> char_in (CHR ''0'') (CHR ''5'') c \<and> char_in (CHR ''0'') (CHR ''9'') d)
   \<longleftrightarrow> (is_digit a \<and> is_digit b \<and> is_digit c \<and> is_digit d
        \<and> 10 * digit_val a + digit_val b \<le> 23
        \<and> 10 * digit_val c + digit_val d \<le> 59)"
  unfolding char_two char_in_def is_digit_def digit_val_def by simp arith

lemma validateTimeFormat_shape: "validateTimeFormat s \<longleftrightarrow> spec_time_shape s"
  unfolding validateTimeFormat_iff spec_time_shape_def char_range_cases ..

section \<open>Rounding\<close>

lemma bit_length_0 [simp]: "bit_length 0 = 0"
  by (simp add: bit_length.simps)

lemma bit_length_pos: "0 < n \<Longrightarrow> bit_length n = Suc (bit_length (n div 2))"
  by (subst bit_length.simps) simp

lemma bit_length_bounds: "0 < n \<Longrightarrow> 2 ^ (bit_length n - 1) \<le> n \<and> n < 2 ^ bit_length n"
proof (induction n rule: bit_length.induct)
  case (1 n)
  show ?case
  proof (cases "n div 2 = 0")
    case True
    with 1(2) have "n = 1" by (simp add: div_eq_0_iff) 
    then show ?thesis by (simp add: bit_length_pos)
  next
    case False
    then have h: "0 < n div 2" by simp
    from 1(1) [OF _ h] 1(2)
    have ih: "2 ^ (bit_length (n div 2) - 1) \<le> n div 2" "n div 2 < 2 ^ bit_length (n div 2)"
      by auto
    have bl: "bit_length n = Suc (bit_length (n div 2))"
      using 1(2) by (rule bit_length_pos)
    have pos: "0 < bit_length (n div 2)"
      using h by (simp add: bit_length_pos)
    then obtain k where k: "bit_length (n div 2) = Suc k"
      by (cases "bit_length (n div 2)") auto
    from ih k have "2 * 2 ^ k \<le> n" "n < 2 * 2 ^ Suc k" by auto
    then show ?thesis by (simp add: bl k)
  qed
qed

lemma ilog2_bounds:
  assumes "x \<noteq> 0"
  shows "2 powi ilog2 x \<le> \<bar>x\<bar>" and "\<bar>x\<bar> < 2 powi (ilog2 x + 1)"
proof -
  have "2 powi ilog2 x \<le> \<bar>x\<bar> \<and> \<bar>x\<bar> < 2 powi (ilog2 x + 1)"
  proof (cases "1 \<le> \<bar>x\<bar>")
    case True
    define n where "n = nat \<lfloor>\<bar>x\<bar>\<rfloor>"
    have n1: "0 < n" using True by (simp add: n_def)
    have nn: "(of_nat n :: rat) = of_int \<lfloor>\<bar>x\<bar>\<rfloor>"
      by (simp add: n_def)
    have nx: "of_nat n \<le> \<bar>x\<bar>" "\<bar>x\<bar> < of_nat n + 1"
      unfolding nn by linarith+
    obtain k where k: "bit_length n = Suc k"
      using n1 by (cases "bit_length n") (auto simp: bit_length_pos)
    from bit_length_bounds [OF n1] k have b: "2 ^ k \<le> n" "n < 2 ^ Suc k" by auto
    have il: "ilog2 x = int k" using True by (simp add: ilog2_def n_def [symmetric] k)
    have "(2::rat) ^ k \<le> of_nat n" using b(1)
      by (metis of_nat_le_iff of_nat_numeral of_nat_power)
    moreover have "n + 1 \<le> 2 ^ Suc k" using b(2) by simp
    then have "(of_nat (n + 1) :: rat) \<le> of_nat (2 ^ Suc k)" by (simp only: of_nat_le_iff)
    then have "(of_nat n :: rat) + 1 \<le> 2 ^ Suc k" by simp
    ultimately have "(2::rat) ^ k \<le> \<bar>x\<bar>" "\<bar>x\<bar> < 2 ^ Suc k"
      using nx by linarith+
    then show ?thesis by (simp add: il power_int_add)
  next
    case False
    define y where "y = 1 / \<bar>x\<bar>"
    have xpos: "0 < \<bar>x\<bar>" using assms by simp
    have y1: "1 < y" using False xpos by (simp add: y_def field_simps)
    define n where "n = nat (\<lceil>y\<rceil> - 1)"
    have "2 \<le> \<lceil>y\<rceil>" using y1 by (simp add: le_ceiling_iff)
    then have n1: "0 < n" by (simp add: n_def)
    have nn: "(of_nat n :: rat) = of_int \<lceil>y\<rceil> - 1"
      using \<open>2 \<le> \<lceil>y\<rceil>\<close> by (simp add: n_def)
    have ny: "of_nat n < y" "y \<le> of_nat n + 1"
      unfolding nn by linarith+
    obtain k where k: "bit_length n = Suc k"
      using n1 by (cases "bit_length n") (auto simp: bit_length_pos)
    from bit_length_bounds [OF n1] k have b: "2 ^ k \<le> n" "n < 2 ^ Suc k" by auto
    have il: "ilog2 x = - int (Suc k)" using False by (simp add: ilog2_def y_def [symmetric] n_def [symmetric] k)
    have "(2::rat) ^ k \<le> of_nat n" using b(1)
      by (metis of_nat_le_iff of_nat_numeral of_nat_power)
    then have lo: "2 ^ k < y" using ny by linarith
    have "n + 1 \<le> 2 ^ Suc k" using b(2) by simp
    then have "(of_nat (n + 1) :: rat) \<le> of_nat (2 ^ Suc k)" by (simp only: of_nat_le_iff)
    then have "(of_nat n :: rat) + 1 \<le> 2 ^ Suc k" by simp
    then have hi: "y \<le> 2 ^ Suc k" using ny by linarith
    have "1 / 2 ^ Suc k \<le> \<bar>x\<bar>" using hi xpos by (simp add: y_def field_simps)
    moreover have "\<bar>x\<bar> < 1 / 2 ^ k" using lo xpos by (simp add: y_def field_simps)
    moreover have "(2::rat) powi (- int (Suc k)) = 1 / 2 ^ Suc k"
      by (simp only: power_int_minus power_int_of_nat inverse_eq_divide)
    moreover have "- int (Suc k) + 1 = - int k" by simp
    then have "(2::rat) powi (- int (Suc k) + 1) = 1 / 2 ^ k"
      by (simp only: power_int_minus power_int_of_nat inverse_eq_divide)
    ultimately show ?thesis
      unfolding il by simp
  qed
  then show "2 powi ilog2 x \<le> \<bar>x\<bar>" and "\<bar>x\<bar> < 2 powi (ilog2 x + 1)" by auto
qed


lemma ilog2_unique:
  assumes "2 powi e \<le> \<bar>x\<bar>" and "\<bar>x\<bar> < 2 powi (e + 1)"
  shows "ilog2 x = e"
proof -
  have "(0::rat) < 2 powi e" by simp
  with assms(1) have "0 < \<bar>x\<bar>" by linarith
  then have x0: "x \<noteq> 0" by simp
  note b = ilog2_bounds [OF x0]
  have "\<not> ilog2 x < e"
  proof
    assume "ilog2 x < e"
    then have "(2::rat) powi (ilog2 x + 1) \<le> 2 powi e"
      by (intro power_int_increasing) auto
    with b(2) assms(1) show False by linarith
  qed
  moreover have "\<not> e < ilog2 x"
  proof
    assume "e < ilog2 x"
    then have "(2::rat) powi (e + 1) \<le> 2 powi ilog2 x"
      by (intro power_int_increasing) auto
    with b(1) assms(2) show False by linarith
  qed
  ultimately show ?thesis by linarith
qed

lemma round_even_cases:
  "round_even y = \<lfloor>y\<rfloor> \<and> y - of_int \<lfloor>y\<rfloor> \<le> 1 / 2
   \<or> round_even y = \<lfloor>y\<rfloor> + 1 \<and> 1 / 2 \<le> y - of_int \<lfloor>y\<rfloor>"
  by (auto simp: round_even_def Let_def)

lemma round_even_floor_le: "\<lfloor>y\<rfloor> \<le> round_even y"
  using round_even_cases [of y] by auto

lemma round_even_le_floor: "round_even y \<le> \<lfloor>y\<rfloor> + 1"
  using round_even_cases [of y] by auto

lemma round_even_of_int [simp]: "round_even (of_int m) = m"
  by (simp add: round_even_def)

lemma round_even_error: "\<bar>of_int (round_even y) - y\<bar> \<le> 1 / 2"
proof -
  have f: "of_int \<lfloor>y\<rfloor> \<le> y" "y < of_int \<lfloor>y\<rfloor> + 1" by linarith+
  from round_even_cases [of y] show ?thesis
  proof (elim disjE conjE)
    assume a: "round_even y = \<lfloor>y\<rfloor>" "y - of_int \<lfloor>y\<rfloor> \<le> 1 / 2"
    show ?thesis unfolding a(1) using a(2) f by linarith
  next
    assume a: "round_even y = \<lfloor>y\<rfloor> + 1" "1 / 2 \<le> y - of_int \<lfloor>y\<rfloor>"
    have "(of_int (\<lfloor>y\<rfloor> + 1) :: rat) = of_int \<lfloor>y\<rfloor> + 1" by simp
    then show ?thesis unfolding a(1) using a(2) f by linarith
  qed
qed

lemma round_even_unique:
  assumes "\<bar>y - of_int m\<bar> < 1 / 2"
  shows "round_even y = m"
proof -
  have "\<bar>(of_int (round_even y) :: rat) - of_int m\<bar> < 1"
    using round_even_error [of y] assms by linarith
  then have "\<bar>(of_int (round_even y - m) :: rat)\<bar> < 1" by simp
  then have "\<bar>round_even y - m\<bar> < 1"
    by (simp only: of_int_abs [symmetric] of_int_less_1_iff)
  then show ?thesis by linarith
qed

lemma round_even_mono:
  assumes "x \<le> y"
  shows "round_even x \<le> round_even y"
proof (cases "\<lfloor>x\<rfloor> = \<lfloor>y\<rfloor>")
  case True
  with assms show ?thesis
    by (auto simp: round_even_def Let_def)
next
  case False
  with assms have "\<lfloor>x\<rfloor> < \<lfloor>y\<rfloor>"
    using floor_mono [of x y] by linarith
  then show ?thesis
    using round_even_le_floor [of x] round_even_floor_le [of y] by linarith
qed

lemma round_even_minus: "round_even (- y) = - round_even y"
proof (cases "y = of_int \<lfloor>y\<rfloor>")
  case True
  then obtain m where "y = of_int m" ..
  then show ?thesis by (simp flip: of_int_minus)
next
  case False
  then have "of_int \<lfloor>y\<rfloor> < y" using of_int_floor_le [of y] by linarith
  moreover have "y < of_int \<lfloor>y\<rfloor> + 1" by linarith
  moreover have "(of_int (- \<lfloor>y\<rfloor> - 1) :: rat) = - of_int \<lfloor>y\<rfloor> - 1" by simp
  ultimately have f: "\<lfloor>- y\<rfloor> = - \<lfloor>y\<rfloor> - 1"
    by (intro floor_unique) linarith+
  show ?thesis
    unfolding round_even_def Let_def f
    by (auto simp: algebra_simps)
qed

lemma ilog2_minus [simp]: "ilog2 (- x) = ilog2 x"
  by (simp add: ilog2_def)

lemma rnd_0 [simp]: "rnd 0 = 0"
  by (simp add: rnd_def)

lemma rnd_minus: "rnd (- x) = - rnd x"
  by (simp add: rnd_def Let_def round_even_minus)

lemma powi_le_cancel:
  assumes "(2::rat) powi a < 2 powi b"
  shows "a < b"
proof (rule ccontr)
  assume "\<not> a < b"
  then have "(2::rat) powi b \<le> 2 powi a"
    by (intro power_int_increasing) auto
  with assms show False by linarith
qed

lemma rnd_exact_lt:
  assumes x: "x = of_int m * 2 powi k" and m: "\<bar>m\<bar> < 2 ^ 53" and k: "- 1074 \<le> k"
  shows "rnd x = x"
proof (cases "x = 0")
  case True
  then show ?thesis by simp
next
  case False
  define q where "q = max (ilog2 x - 52) (- 1074)"
  have "\<bar>x\<bar> = of_int \<bar>m\<bar> * 2 powi k"
    by (simp add: x abs_mult)
  moreover have "(of_int \<bar>m\<bar> :: rat) < of_int (2 ^ 53)"
    using m by (simp only: of_int_less_iff)
  then have "(of_int \<bar>m\<bar> :: rat) * 2 powi k < 2 ^ 53 * 2 powi k"
    by simp
  ultimately have "\<bar>x\<bar> < 2 powi (53 + k)"
    by (simp add: power_int_add)
  with ilog2_bounds(1) [OF False] have "(2::rat) powi ilog2 x < 2 powi (53 + k)"
    by linarith
  then have "ilog2 x < 53 + k" by (rule powi_le_cancel)
  with k have qk: "q \<le> k" by (simp add: q_def)
  have "x / 2 powi q = of_int m * 2 powi (k - q)"
    by (simp add: x power_int_diff)
  also have "(2::rat) powi (k - q) = of_int (2 ^ nat (k - q))"
    using qk by (simp add: power_int_def)
  finally have "x / 2 powi q = of_int (m * 2 ^ nat (k - q))"
    by simp
  then have "of_int (round_even (x / 2 powi q)) = x / 2 powi q"
    by (simp only: round_even_of_int)
  then show ?thesis
    using False by (simp add: rnd_def q_def [symmetric])
qed

lemma rnd_exact:
  assumes x: "x = of_int m * 2 powi k" and m: "\<bar>m\<bar> \<le> 2 ^ 53" and k: "- 1074 \<le> k"
  shows "rnd x = x"
proof (cases "\<bar>m\<bar> < 2 ^ 53")
  case True
  show ?thesis using x True k by (rule rnd_exact_lt)
next
  case False
  with m have "\<bar>m\<bar> = 2 ^ 53" by simp
  define h :: int where "h = (if 0 \<le> m then 2 ^ 52 else - (2 ^ 52))"
  have mh: "m = 2 * h" and h: "\<bar>h\<bar> < 2 ^ 53"
    using \<open>\<bar>m\<bar> = 2 ^ 53\<close> by (auto simp: h_def)
  have "x = of_int h * 2 powi (k + 1)"
    by (simp add: x mh power_int_add)
  moreover have "- 1074 \<le> k + 1" using k by simp
  ultimately show ?thesis using h by (intro rnd_exact_lt [of x h "k + 1"])
qed

lemma rnd_cert:
  assumes lo: "2 powi (q + 52) \<le> \<bar>x\<bar>" and hi: "\<bar>x\<bar> < 2 powi (q + 53)"
    and q: "- 1074 \<le> q" and m: "\<bar>x / 2 powi q - of_int m\<bar> < 1 / 2"
  shows "rnd x = of_int m * 2 powi q"
proof -
  have "(0::rat) < 2 powi (q + 52)" by simp
  with lo have "0 < \<bar>x\<bar>" by linarith
  then have x0: "x \<noteq> 0" by simp
  have "ilog2 x = q + 52"
    using lo hi by (intro ilog2_unique) (simp_all add: add.commute add.left_commute)
  then have "max (ilog2 x - 52) (- 1074) = q" using q by simp
  then show ?thesis
    using x0 round_even_unique [OF m] by (simp add: rnd_def)
qed

lemma rnd_nonneg: "0 \<le> x \<Longrightarrow> 0 \<le> rnd x"
proof (cases "x = 0")
  case True
  then show ?thesis by simp
next
  case False
  assume "0 \<le> x"
  define q where "q = max (ilog2 x - 52) (- 1074)"
  have "0 \<le> x / 2 powi q" using \<open>0 \<le> x\<close> by simp
  then have "0 \<le> \<lfloor>x / 2 powi q\<rfloor>" by simp
  then have "0 \<le> round_even (x / 2 powi q)"
    using round_even_floor_le [of "x / 2 powi q"] by linarith
  then show ?thesis using False by (simp add: rnd_def q_def [symmetric])
qed

lemma quantum_le:
  assumes "x \<noteq> 0" and "\<bar>x\<bar> < 2 powi e" and "- 1021 \<le> e"
  shows "max (ilog2 x - 52) (- 1074) \<le> e - 53"
proof -
  have "(2::rat) powi ilog2 x < 2 powi e"
    using ilog2_bounds(1) [OF assms(1)] assms(2) by linarith
  then have "ilog2 x < e" by (rule powi_le_cancel)
  with assms(3) show ?thesis by simp
qed

lemma rnd_error_quantum:
  assumes "x \<noteq> 0"
  shows "\<bar>rnd x - x\<bar> \<le> 2 powi (max (ilog2 x - 52) (- 1074)) / 2"
proof -
  define q where "q = max (ilog2 x - 52) (- 1074)"
  define y where "y = x / 2 powi q"
  have p: "(0::rat) < 2 powi q" by simp
  have x: "x = y * 2 powi q" by (simp add: y_def)
  have r: "rnd x = of_int (round_even y) * 2 powi q"
    using assms by (simp add: rnd_def q_def [symmetric] y_def)
  have "rnd x - x = (of_int (round_even y) - y) * 2 powi q"
    unfolding r by (simp add: y_def field_simps)
  then have "\<bar>rnd x - x\<bar> = \<bar>of_int (round_even y) - y\<bar> * 2 powi q"
    using p by (simp add: abs_mult)
  also have "\<dots> \<le> (1 / 2) * 2 powi q"
    using round_even_error [of y] p by (intro mult_right_mono) auto
  finally show ?thesis by (simp add: q_def)
qed

lemma rnd_abs_error:
  assumes "\<bar>x\<bar> < 2 powi e" and "- 1021 \<le> e"
  shows "\<bar>rnd x - x\<bar> \<le> 2 powi (e - 54)"
proof (cases "x = 0")
  case True
  then show ?thesis by simp
next
  case False
  define q where "q = max (ilog2 x - 52) (- 1074)"
  have "q \<le> e - 53" unfolding q_def using False assms by (rule quantum_le)
  then have "(2::rat) powi q \<le> 2 powi (e - 53)"
    by (intro power_int_increasing) auto
  also have "(2::rat) powi (e - 53) = 2 * 2 powi (e - 54)"
    by (simp add: power_int_diff)
  finally have "(2::rat) powi q / 2 \<le> 2 powi (e - 54)" by simp
  with rnd_error_quantum [OF False] show ?thesis
    unfolding q_def by linarith
qed

lemma rnd_repr:
  assumes "x \<noteq> 0"
  shows "\<exists>m. rnd x = of_int m * 2 powi (max (ilog2 x - 52) (- 1074)) \<and> \<bar>m\<bar> \<le> 2 ^ 53"
proof -
  define q where "q = max (ilog2 x - 52) (- 1074)"
  define y where "y = x / 2 powi q"
  have "ilog2 x + 1 - q \<le> 53" by (simp add: q_def)
  then have "(2::rat) powi (ilog2 x + 1 - q) \<le> 2 powi 53"
    by (intro power_int_increasing) auto
  moreover have "\<bar>y\<bar> = \<bar>x\<bar> / 2 powi q" by (simp add: y_def)
  moreover have "\<bar>x\<bar> / 2 powi q < 2 powi (ilog2 x + 1) / 2 powi q"
    using ilog2_bounds(2) [OF assms] by (simp add: divide_strict_right_mono)
  ultimately have yb: "\<bar>y\<bar> \<le> 2 ^ 53"
    by (simp add: power_int_diff)
  have yb2: "y \<le> of_int (2 ^ 53)" "of_int (- (2 ^ 53)) \<le> y" using yb by auto
  have "round_even y \<le> round_even (of_int (2 ^ 53))"
      "round_even (of_int (- (2 ^ 53))) \<le> round_even y"
    using yb2 by (auto intro: round_even_mono)
  then have "\<bar>round_even y\<bar> \<le> 2 ^ 53"
    unfolding round_even_of_int by linarith
  moreover have "rnd x = of_int (round_even y) * 2 powi q"
    using assms by (simp add: rnd_def q_def [symmetric] y_def)
  ultimately show ?thesis unfolding q_def by blast
qed

lemma rnd_idem [simp]: "rnd (rnd x) = rnd x"
proof (cases "x = 0")
  case True
  then show ?thesis by simp
next
  case False
  from rnd_repr [OF False] obtain m where
    m: "rnd x = of_int m * 2 powi (max (ilog2 x - 52) (- 1074))" "\<bar>m\<bar> \<le> 2 ^ 53"
    by blast
  show ?thesis by (rule rnd_exact [OF m]) simp
qed

lemma rnd_of_int:
  assumes "\<bar>m\<bar> \<le> 2 ^ 53"
  shows "rnd (of_int m) = of_int m"
  by (rule rnd_exact [of _ m 0]) (use assms in simp_all)

lemma rnd_quarters:
  assumes "\<bar>m\<bar> \<le> 2 ^ 53"
  shows "rnd (of_int m / 4) = of_int m / 4"
  by (rule rnd_exact [of _ m "- 2"]) (use assms in \<open>simp_all add: power_int_minus\<close>)

lemma fl_finite:
  assumes "\<bar>x\<bar> < 2 ^ 1023"
  shows "fl x = Fin (rnd x)"
proof -
  have "\<bar>x\<bar> < 2 powi 1023" using assms by simp
  then have "\<bar>rnd x - x\<bar> \<le> 2 powi (1023 - 54)"
    by (rule rnd_abs_error) simp
  then have "\<bar>rnd x - x\<bar> \<le> 2 ^ 969" by simp
  moreover have "(2::rat) ^ 1023 + 2 ^ 969 < 2 ^ 1024" by simp
  ultimately have "\<bar>rnd x\<bar> < 2 ^ 1024" using assms by linarith
  then show ?thesis by (auto simp: fl_def Let_def)
qed

section \<open>The decimal hours of a validated time\<close>

lemma is_digit_iff: "is_digit c \<longleftrightarrow> 48 \<le> (of_char c :: nat) \<and> (of_char c :: nat) \<le> 57"
  by (simp add: is_digit_def char_in_def)

lemma digit_not_colon: "is_digit c \<Longrightarrow> c \<noteq> CHR '':''"
  by (auto simp: is_digit_iff)

lemma digit_not_space: "is_digit c \<Longrightarrow> \<not> is_space c"
  by (auto simp: is_digit_iff is_space_def)

lemma digit_not_sign: "is_digit c \<Longrightarrow> c \<noteq> CHR ''-'' \<and> c \<noteq> CHR ''+''"
  by (auto simp: is_digit_iff)

lemma digit_val_le: "is_digit c \<Longrightarrow> digit_val c \<le> 9"
  by (auto simp: is_digit_iff digit_val_def)

lemma split_on_time:
  assumes "is_digit a" "is_digit b" "is_digit c" "is_digit d"
  shows "split_on (CHR '':'') [a, b, CHR '':'', c, d] = [[a, b], [c, d]]"
  using assms [THEN digit_not_colon] by simp

lemma fl_of_nat:
  assumes "n < 2 ^ 53"
  shows "fl (of_nat n) = Fin (of_nat n)"
proof -
  have "(of_nat n :: rat) < of_nat (2 ^ 53)" using assms by (simp only: of_nat_less_iff)
  then have b: "(of_nat n :: rat) < 2 ^ 53" by simp
  have "rnd (of_int (int n)) = of_int (int n)"
    using assms by (intro rnd_of_int) simp
  moreover have "\<bar>of_nat n :: rat\<bar> < 2 ^ 1023"
  proof -
    have "(2::rat) ^ 53 < 2 ^ 1023" by simp
    with b show ?thesis by simp
  qed
  ultimately show ?thesis by (simp add: fl_finite)
qed

lemma parseInt10_two_digits:
  assumes "is_digit a" "is_digit b"
  shows "parseInt10 [a, b] = Fin (of_nat (10 * digit_val a + digit_val b))"
proof -
  have "10 * digit_val a + digit_val b < 2 ^ 53"
    using assms [THEN digit_val_le] by simp
  then have "fl (of_nat (10 * digit_val a + digit_val b)) = Fin (of_nat (10 * digit_val a + digit_val b))"
    by (rule fl_of_nat)
  then show ?thesis
    using assms digit_not_space [OF assms(1)] digit_not_sign [OF assms(1)]
    by (simp add: parseInt10_def strip_sign_def digits_val_def)
qed

lemma decimalHours_error:
  assumes "h \<le> 23" and "m \<le> 59"
  shows "\<bar>decimalHours h m - (of_nat h + of_nat m / 60)\<bar> \<le> 1 / 2 ^ 48"
    and "0 \<le> decimalHours h m"
    and "decimalHours h m < 24"
    and "0 \<le> rnd (of_nat m / 60)"
    and "rnd (of_nat m / 60) < 1"
proof -
  define c where "c = rnd (of_nat m / 60)"
  define x :: rat where "x = of_nat m / 60"
  have "(of_nat m :: rat) \<le> of_nat 59" using assms(2) by (simp only: of_nat_le_iff)
  then have xb: "0 \<le> x" "x \<le> 59 / 60" by (simp_all add: x_def)
  then have "\<bar>x\<bar> < 2 powi 0" by simp
  then have "\<bar>rnd x - x\<bar> \<le> 2 powi (0 - 54)" by (rule rnd_abs_error) simp
  then have ce: "\<bar>c - x\<bar> \<le> 1 / 2 ^ 54" by (simp add: c_def x_def power_int_minus)
  have c0: "0 \<le> c" unfolding c_def x_def [symmetric] using xb(1) by (rule rnd_nonneg)
  have e54: "(1::rat) / 2 ^ 54 \<le> 1 / 100" by simp
  have c1: "c < 1" using ce xb e54 by linarith
  have "(of_nat h :: rat) \<le> of_nat 23" using assms(1) by (simp only: of_nat_le_iff)
  then have hb: "(0::rat) \<le> of_nat h" "(of_nat h :: rat) \<le> 23" by simp_all
  define y where "y = of_nat h + c"
  have yb: "0 \<le> y" "y < 24" using hb c0 c1 by (simp_all add: y_def)
  then have "\<bar>y\<bar> < 2 powi 5" by simp
  then have "\<bar>rnd y - y\<bar> \<le> 2 powi (5 - 54)" by (rule rnd_abs_error) simp
  then have ye: "\<bar>rnd y - y\<bar> \<le> 1 / 2 ^ 49" by (simp add: power_int_minus)
  have d: "decimalHours h m = rnd y" by (simp add: decimalHours_def y_def c_def)
  have sum: "(1::rat) / 2 ^ 54 + 1 / 2 ^ 49 \<le> 1 / 2 ^ 48" by simp
  have "\<bar>rnd y - (of_nat h + x)\<bar> \<le> 1 / 2 ^ 54 + 1 / 2 ^ 49"
    using ye ce unfolding y_def by linarith
  with sum have err: "\<bar>rnd y - (of_nat h + x)\<bar> \<le> 1 / 2 ^ 48" by linarith
  then show "\<bar>decimalHours h m - (of_nat h + of_nat m / 60)\<bar> \<le> 1 / 2 ^ 48"
    by (simp add: d x_def)
  show "0 \<le> decimalHours h m" unfolding d using yb(1) by (rule rnd_nonneg)
  have e48: "(1::rat) / 2 ^ 48 \<le> 1 / 100" by simp
  show "decimalHours h m < 24" unfolding d using err hb xb e48 by linarith
  show "0 \<le> rnd (of_nat m / 60)" using c0 by (simp add: c_def)
  show "rnd (of_nat m / 60) < 1" using c1 by (simp add: c_def)
qed

lemma timeToDecimal_digits:
  assumes dg: "is_digit a" "is_digit b" "is_digit c" "is_digit d"
    and h: "10 * digit_val a + digit_val b \<le> 23"
    and m: "10 * digit_val c + digit_val d \<le> 59"
  shows "timeToDecimal [a, b, CHR '':'', c, d]
         = Fin (decimalHours (10 * digit_val a + digit_val b) (10 * digit_val c + digit_val d))"
proof -
  define hh where "hh = 10 * digit_val a + digit_val b"
  define mm where "mm = 10 * digit_val c + digit_val d"
  have hb: "(of_nat hh :: rat) \<le> 23" "(0::rat) \<le> of_nat hh"
    using h of_nat_le_iff [of hh 23, where ?'a = rat] by (simp_all add: hh_def)
  have mb: "(of_nat mm :: rat) \<le> 59" "(0::rat) \<le> of_nat mm"
    using m of_nat_le_iff [of mm 59, where ?'a = rat] by (simp_all add: mm_def)
  note de = decimalHours_error [of hh mm, OF h [folded hh_def] m [folded mm_def]]
  have q: "fl (of_nat mm / 60) = Fin (rnd (of_nat mm / 60))"
  proof -
    have "\<bar>(of_nat mm :: rat) / 60\<bar> < 2 ^ 1023"
    proof -
      have "(1::rat) < 2 ^ 1023" by simp
      with mb show ?thesis by simp
    qed
    then show ?thesis by (simp add: fl_finite)
  qed
  have s: "fl (of_nat hh + rnd (of_nat mm / 60)) = Fin (decimalHours hh mm)"
  proof -
    have "(32::rat) < 2 ^ 1023" by simp
    with hb de(4,5) have "\<bar>(of_nat hh :: rat) + rnd (of_nat mm / 60)\<bar> < 2 ^ 1023" by simp
    then show ?thesis by (simp add: fl_finite decimalHours_def)
  qed
  have pa: "parseInt10 [a, b] = Fin (of_nat hh)"
    unfolding hh_def using dg(1,2) by (rule parseInt10_two_digits)
  have pb: "parseInt10 [c, d] = Fin (of_nat mm)"
    unfolding mm_def using dg(3,4) by (rule parseInt10_two_digits)
  have "timeToDecimal [a, b, CHR '':'', c, d] = Fin (decimalHours hh mm)"
    unfolding timeToDecimal_def split_on_time [OF dg]
    using h m
    by (simp add: pa pb isNaN_def jgt_def q s hh_def [symmetric] mm_def [symmetric])
  then show ?thesis by (simp only: hh_def mm_def)
qed

lemma timeToDecimal_valid:
  assumes "validateTimeFormat s"
  shows "timeToDecimal s = Fin (decimalHours (hour_of s) (minute_of s))"
    and "hour_of s \<le> 23" and "minute_of s \<le> 59"
proof -
  from assms obtain a b c d where s: "s = [a, b, CHR '':'', c, d]"
    and dg: "is_digit a" "is_digit b" "is_digit c" "is_digit d"
    and h: "10 * digit_val a + digit_val b \<le> 23"
    and m: "10 * digit_val c + digit_val d \<le> 59"
    unfolding validateTimeFormat_shape spec_time_shape_def by blast
  have hm: "hour_of s = 10 * digit_val a + digit_val b"
      "minute_of s = 10 * digit_val c + digit_val d"
    by (simp_all add: s hour_of_def minute_of_def)
  show "timeToDecimal s = Fin (decimalHours (hour_of s) (minute_of s))"
    unfolding hm unfolding s using dg h m by (rule timeToDecimal_digits)
  show "hour_of s \<le> 23" "minute_of s \<le> 59" using h m by (simp_all add: hm)
qed

section \<open>The sweep terminates\<close>

lemma fl_quarters:
  assumes "n \<le> 2 ^ 53"
  shows "fl (of_nat n / 4) = Fin (of_nat n / 4)"
proof -
  have "(of_nat n :: rat) \<le> of_nat (2 ^ 53)" using assms by (simp only: of_nat_le_iff)
  then have b: "(of_nat n :: rat) \<le> 2 ^ 53" by simp
  have "(2::rat) ^ 53 < 2 ^ 1023" by simp
  with b have "\<bar>(of_nat n :: rat) / 4\<bar> < 2 ^ 1023" by simp
  moreover have "rnd (of_int (int n) / 4) = of_int (int n) / 4"
    using assms by (intro rnd_quarters) simp
  ultimately show ?thesis by (simp add: fl_finite)
qed

lemma jadd_quarter_step:
  assumes "n < 2 ^ 53"
  shows "jadd (Fin (of_nat n / 4)) timeStep = Fin (of_nat (Suc n) / 4)"
proof -
  have e: "(of_nat n :: rat) / 4 + 1 / 4 = of_nat (Suc n) / 4" by (simp add: field_simps)
  have "Suc n \<le> 2 ^ 53" using assms by simp
  then have "fl (of_nat (Suc n) / 4) = Fin (of_nat (Suc n) / 4)" by (rule fl_quarters)
  then show ?thesis
    unfolding timeStep_def jadd.simps e .
qed

lemma below_iff_bucket: "of_nat i / 4 < t \<longleftrightarrow> i < bucket_count t"
proof -
  have "of_nat i / 4 < t \<longleftrightarrow> of_int (int i) < 4 * t" by (simp add: field_simps)
  also have "\<dots> \<longleftrightarrow> int i < \<lceil>4 * t\<rceil>" by (simp only: less_ceiling_iff)
  also have "\<dots> \<longleftrightarrow> i < bucket_count t" unfolding bucket_count_def by linarith
  finally show ?thesis .
qed

lemma bucket_count_le: "t \<le> 24 \<Longrightarrow> bucket_count t \<le> 96"
proof -
  assume "t \<le> 24"
  then have "4 * t \<le> of_int 96" by simp
  then have "\<lceil>4 * t\<rceil> \<le> 96" by (simp only: ceiling_le_iff)
  then show ?thesis unfolding bucket_count_def by linarith
qed

lemma night_buckets_step:
  "i < n \<Longrightarrow> night_buckets s i n = (if night_at s i then 1 else 0) + night_buckets s (Suc i) n"
  by (simp add: night_buckets_def upt_conv_Cons)

lemma night_buckets_empty [simp]: "night_buckets s n n = 0"
  by (simp add: night_buckets_def)

lemma night_buckets_le: "night_buckets s i n \<le> n - i"
  unfolding night_buckets_def using length_filter_le [of "night_at s" "[i..<n]"] by simp

lemma night_sweep_run:
  assumes t: "t \<le> 24" and ji: "j \<le> i" and ib: "i \<le> bucket_count t"
  shows "night_sweep s (Fin t) (Fin (of_nat i / 4)) (Fin (of_nat j / 4)) k
      = Some (Fin (of_nat (j + night_buckets s i (bucket_count t)) / 4), k + (bucket_count t - i))"
  using ji ib
proof (induction "bucket_count t - i" arbitrary: i j k)
  case 0
  then have "i = bucket_count t" by simp
  then have "\<not> i < bucket_count t" by simp
  then have "\<not> of_nat i / 4 < t" using below_iff_bucket [of i t] by blast
  then show ?case
    using \<open>i = bucket_count t\<close> by (subst night_sweep.simps) (simp del: of_nat_add)
next
  case (Suc d)
  then have lt: "i < bucket_count t" by simp
  then have below: "of_nat i / 4 < t" using below_iff_bucket [of i t] by blast
  have i96: "i < 96" using lt bucket_count_le [OF t] by simp
  have "(96::nat) < 2 ^ 53" by simp
  with i96 have ib: "i < 2 ^ 53" by linarith
  with \<open>j \<le> i\<close> have jb: "j < 2 ^ 53" by simp
  define j' where "j' = (if night_at s i then Suc j else j)"
  have j'le: "j' \<le> Suc i" using \<open>j \<le> i\<close> by (simp add: j'_def)
  have d: "d = bucket_count t - Suc i" using Suc.hyps(2) by simp
  have acc: "(if jge (jmod (jadd s (Fin (of_nat i / 4))) (Fin 24)) (Fin 22)
                  \<or> jlt (jmod (jadd s (Fin (of_nat i / 4))) (Fin 24)) (Fin 5)
              then jadd (Fin (of_nat j / 4)) timeStep else Fin (of_nat j / 4))
             = Fin (of_nat j' / 4)"
    unfolding j'_def night_at_def [symmetric] jadd_quarter_step [OF jb] by simp
  have "night_sweep s (Fin t) (Fin (of_nat i / 4)) (Fin (of_nat j / 4)) k
        = night_sweep s (Fin t) (Fin (of_nat (Suc i) / 4)) (Fin (of_nat j' / 4)) (Suc k)"
    by (subst night_sweep.simps) (simp only: jlt.simps below if_True jadd_quarter_step [OF ib] acc)
  also have "\<dots> = Some (Fin (of_nat (j' + night_buckets s (Suc i) (bucket_count t)) / 4),
                         Suc k + (bucket_count t - Suc i))"
    using lt by (intro Suc.hyps(1) [OF d j'le]) simp
  also have "j' + night_buckets s (Suc i) (bucket_count t) = j + night_buckets s i (bucket_count t)"
    by (simp add: night_buckets_step [OF lt] j'_def)
  also have "Suc k + (bucket_count t - Suc i) = k + (bucket_count t - i)"
    using lt by simp
  finally show ?case .
qed

lemma night_sweep_from_zero:
  assumes "t \<le> 24"
  shows "night_sweep s (Fin t) (Fin 0) (Fin 0) 0
         = Some (Fin (of_nat (night_buckets s 0 (bucket_count t)) / 4), bucket_count t)"
  using night_sweep_run [OF assms, of 0 0 s 0] by simp

section \<open>The elapsed hours of two validated times\<close>

lemma fl_small:
  assumes "\<bar>x\<bar> \<le> 64"
  shows "fl x = Fin (rnd x)"
proof -
  have "(64::rat) < 2 ^ 1023" by simp
  with assms have "\<bar>x\<bar> < 2 ^ 1023" by linarith
  then show ?thesis by (rule fl_finite)
qed

lemma rnd_error_32:
  assumes "\<bar>x\<bar> < 32"
  shows "\<bar>rnd x - x\<bar> \<le> 1 / 2 ^ 49"
proof -
  have "\<bar>x\<bar> < 2 powi 5" using assms by simp
  then have "\<bar>rnd x - x\<bar> \<le> 2 powi (5 - 54)" by (rule rnd_abs_error) simp
  then show ?thesis by (simp add: power_int_minus)
qed

lemma computeTotalHours_Fin:
  assumes "0 \<le> s" "s < 24" "0 \<le> e" "e < 24"
  shows "computeTotalHours (Fin s) (Fin e) = Fin (elapsed s e)"
proof (cases "s \<le> e")
  case True
  have "\<bar>e - s\<bar> \<le> 64" using assms by linarith
  then have "fl (e - s) = Fin (rnd (e - s))" by (rule fl_small)
  then show ?thesis using True
    by (simp add: computeTotalHours_def elapsed_def jge_def jsub_def)
next
  case False
  have a: "\<bar>24 - s\<bar> \<le> 64" "\<bar>24 - s\<bar> < 32" using assms by linarith+
  have f1: "fl (24 - s) = Fin (rnd (24 - s))" using a(1) by (rule fl_small)
  have "\<bar>rnd (24 - s) - (24 - s)\<bar> \<le> 1 / 2 ^ 49" using a(2) by (rule rnd_error_32)
  moreover have "(1::rat) / 2 ^ 49 \<le> 1" by simp
  ultimately have "\<bar>rnd (24 - s) + e\<bar> \<le> 64" using assms by linarith
  then have "fl (rnd (24 - s) + e) = Fin (rnd (rnd (24 - s) + e))" by (rule fl_small)
  then show ?thesis using False
    by (simp add: computeTotalHours_def elapsed_def jge_def jsub_def f1)
qed

lemma elapsed_nonneg:
  assumes "0 \<le> s" "s < 24" "0 \<le> e"
  shows "0 \<le> elapsed s e"
proof (cases "s \<le> e")
  case True
  then show ?thesis by (simp add: elapsed_def rnd_nonneg)
next
  case False
  have "0 \<le> rnd (24 - s)" using assms by (intro rnd_nonneg) simp
  then have "0 \<le> rnd (rnd (24 - s) + e)" using assms by (intro rnd_nonneg) simp
  then show ?thesis using False by (simp add: elapsed_def)
qed

lemma elapsed_decimalHours_less:
  assumes h: "h \<le> 23" and m: "m \<le> 59" and h': "h' \<le> 23" and m': "m' \<le> 59"
  shows "elapsed (decimalHours h m) (decimalHours h' m') < 24"
proof -
  define s where "s = decimalHours h m"
  define e where "e = decimalHours h' m'"
  define ts :: rat where "ts = of_nat h + of_nat m / 60"
  define te :: rat where "te = of_nat h' + of_nat m' / 60"
  note ds = decimalHours_error [OF h m, folded s_def ts_def]
  note de = decimalHours_error [OF h' m', folded e_def te_def]
  have eps: "(1::rat) / 2 ^ 48 \<le> 1 / 1000" "(1::rat) / 2 ^ 49 \<le> 1 / 1000" by simp_all
  have "(of_nat h' :: rat) \<le> of_nat 23" "(of_nat m' :: rat) \<le> of_nat 59"
    using h' m' by (simp_all only: of_nat_le_iff)
  then have te_hi: "te \<le> 23 + 59 / 60" by (simp add: te_def)
  show ?thesis
  proof (cases "s \<le> e")
    case True
    have "\<bar>e - s\<bar> < 32" using True ds(2) de(3) by linarith
    then have "\<bar>rnd (e - s) - (e - s)\<bar> \<le> 1 / 2 ^ 49" by (rule rnd_error_32)
    then have "rnd (e - s) < 24" using ds(2) de(1) te_hi eps by linarith
    then have "elapsed s e < 24" using True by (simp add: elapsed_def)
    then show ?thesis by (simp only: s_def e_def)
  next
    case False
    have ne: "\<not> (60 * h + m = 60 * h' + m')"
    proof
      assume eq: "60 * h + m = 60 * h' + m'"
      have "(60 * h + m) div 60 = h" "(60 * h' + m') div 60 = h'" using m m' by simp_all
      with eq have "h = h'" by simp
      with eq have "h = h'" "m = m'" by simp_all
      then have "s = e" by (simp only: s_def e_def)
      with False show False by simp
    qed
    have nlt: "\<not> (60 * h + m < 60 * h' + m')"
    proof
      assume "60 * h + m < 60 * h' + m'"
      then have "60 * h + m + 1 \<le> 60 * h' + m'" by simp
      then have "(of_nat (60 * h + m + 1) :: rat) \<le> of_nat (60 * h' + m')"
        by (simp only: of_nat_le_iff)
      then have "60 * (of_nat h :: rat) + of_nat m + 1 \<le> 60 * of_nat h' + of_nat m'"
        by simp
      then have "ts + 1 / 60 \<le> te" unfolding ts_def te_def by linarith
      with ds(1) de(1) eps have "s < e" by linarith
      with False show False by simp
    qed
    from ne nlt have "60 * h' + m' + 1 \<le> 60 * h + m" by simp
    then have "(of_nat (60 * h' + m' + 1) :: rat) \<le> of_nat (60 * h + m)"
      by (simp only: of_nat_le_iff)
    then have "60 * (of_nat h' :: rat) + of_nat m' + 1 \<le> 60 * of_nat h + of_nat m"
      by simp
    then have gap: "te + 1 / 60 \<le> ts" unfolding ts_def te_def by linarith
    have "\<bar>24 - s\<bar> < 32" using ds(2,3) by linarith
    then have r1: "\<bar>rnd (24 - s) - (24 - s)\<bar> \<le> 1 / 2 ^ 49" by (rule rnd_error_32)
    have r1pos: "0 \<le> rnd (24 - s)" using ds(3) by (intro rnd_nonneg) simp
    define u where "u = rnd (24 - s) + e"
    have ub: "0 \<le> u" "u \<le> 24 - 1 / 60 + 3 / 1000"
      using r1 r1pos de(1,2) ds(1) gap eps unfolding u_def by linarith+
    then have "\<bar>u\<bar> < 32" by linarith
    then have "\<bar>rnd u - u\<bar> \<le> 1 / 2 ^ 49" by (rule rnd_error_32)
    then have "rnd u < 24" using ub eps by linarith
    then have "elapsed s e < 24" using False by (simp add: elapsed_def u_def)
    then show ?thesis by (simp only: s_def e_def)
  qed
qed

section \<open>The calculation on valid inputs\<close>

lemma time_value_bounds:
  assumes "validateTimeFormat s"
  shows "timeToDecimal s = Fin (time_value s)" and "0 \<le> time_value s" and "time_value s < 24"
proof -
  note v = timeToDecimal_valid [OF assms]
  show "timeToDecimal s = Fin (time_value s)" by (simp add: v(1) time_value_def)
  show "0 \<le> time_value s" "time_value s < 24"
    unfolding time_value_def using decimalHours_error(2,3) [OF v(2,3)] by simp_all
qed

lemma shift_hours_bounds:
  assumes "validateTimeFormat s" and "validateTimeFormat e"
  shows "computeTotalHours (timeToDecimal s) (timeToDecimal e) = Fin (shift_hours s e)"
    and "0 \<le> shift_hours s e" and "shift_hours s e < 24"
proof -
  note bs = time_value_bounds [OF assms(1)]
  note be = time_value_bounds [OF assms(2)]
  show "computeTotalHours (timeToDecimal s) (timeToDecimal e) = Fin (shift_hours s e)"
    unfolding bs(1) be(1) shift_hours_def using bs(2,3) be(2,3) by (rule computeTotalHours_Fin)
  show "0 \<le> shift_hours s e"
    unfolding shift_hours_def using bs(2,3) be(2) by (rule elapsed_nonneg)
  show "shift_hours s e < 24"
    unfolding shift_hours_def time_value_def
    using timeToDecimal_valid(2,3) [OF assms(1)] timeToDecimal_valid(2,3) [OF assms(2)]
    by (rule elapsed_decimalHours_less)
qed

lemma shift_sweep:
  assumes "validateTimeFormat s" and "validateTimeFormat e"
  shows "night_sweep (timeToDecimal s) (computeTotalHours (timeToDecimal s) (timeToDecimal e))
           (Fin 0) (Fin 0) 0
         = Some (Fin (of_nat (shift_night_buckets s e) / 4), bucket_count (shift_hours s e))"
proof -
  have "shift_hours s e \<le> 24" using shift_hours_bounds(3) [OF assms] by simp
  then have "night_sweep (Fin (time_value s)) (Fin (shift_hours s e)) (Fin 0) (Fin 0) 0
      = Some (Fin (of_nat (shift_night_buckets s e) / 4), bucket_count (shift_hours s e))"
    unfolding shift_night_buckets_def by (rule night_sweep_from_zero)
  then show ?thesis
    by (subst shift_hours_bounds(1) [OF assms], subst time_value_bounds(1) [OF assms(1)])
qed

lemma calculateWage_valid:
  assumes "validateTimeFormat s" and "validateTimeFormat e" and "rate_accepted r"
  shows "calculateWage r s e
         = Some (Inr (wage_of (parseFloat r) (shift_hours s e) (shift_night_buckets s e)))"
proof -
  have nn: "\<not> isNaN (timeToDecimal s)" "\<not> isNaN (timeToDecimal e)"
    by (simp_all add: time_value_bounds(1) [OF assms(1)] time_value_bounds(1) [OF assms(2)] isNaN_def)
  show ?thesis
    unfolding calculateWage_def Let_def
    by (subst shift_sweep [OF assms(1,2)])
       (use assms nn in \<open>simp add: rate_accepted_def wage_of_def shift_hours_bounds(1) [OF assms(1,2)]\<close>)
qed

lemma calculateWage_returns: "\<exists>y. calculateWage r s e = Some y"
proof (cases "validateTimeFormat s \<and> validateTimeFormat e")
  case False
  then show ?thesis by (auto simp: calculateWage_def)
next
  case True
  show ?thesis
  proof (cases "rate_accepted r")
    case True
    with \<open>validateTimeFormat s \<and> validateTimeFormat e\<close> show ?thesis
      by (simp add: calculateWage_valid)
  next
    case False
    with True show ?thesis by (auto simp: calculateWage_def rate_accepted_def)
  qed
qed

section \<open>Two shifts evaluated\<close>

lemma valid_examples:
  "validateTimeFormat ''23:00''" "validateTimeFormat ''04:00''" "validateTimeFormat ''00:00''"
  "validateTimeFormat ''00:01''" "validateTimeFormat ''22:00''" "validateTimeFormat ''06:00''"
  by (simp_all add: validateTimeFormat_shape spec_time_shape_def is_digit_def digit_val_def char_in_def)

lemma fl_numeral_nat:
  assumes "numeral k < (2::nat) ^ 53"
  shows "fl (numeral k) = Fin (numeral k)"
  using fl_of_nat [OF assms] by simp

lemma parseFloat_1000: "parseFloat ''1000'' = Fin 1000"
proof -
  have "fl 1000 = Fin 1000" by (rule fl_numeral_nat) simp
  then show ?thesis
    by (simp add: parseFloat_def strip_sign_def is_space_def is_digit_def char_in_def
        digits_val_def digit_val_def exponent_part_def)
qed

lemma rate_accepted_1000: "rate_accepted ''1000''"
  by (simp add: rate_accepted_def parseFloat_1000 isNaN_def)

lemma decimalHours_whole:
  assumes "h \<le> 23"
  shows "decimalHours h 0 = of_nat h"
proof -
  have "rnd (of_int (int h)) = of_int (int h)"
    using assms by (intro rnd_of_int) simp
  then show ?thesis by (simp add: decimalHours_def)
qed

lemma time_value_examples:
  "time_value ''23:00'' = 23" "time_value ''04:00'' = 4" "time_value ''00:00'' = 0"
  "time_value ''22:00'' = 22" "time_value ''06:00'' = 6"
  by (simp_all add: time_value_def hour_of_def minute_of_def digit_val_def decimalHours_whole)

lemma rnd_numeral [simp]:
  assumes "numeral k \<le> (2::int) ^ 53"
  shows "rnd (numeral k) = numeral k"
  using rnd_of_int [of "numeral k"] assms by simp

lemma rnd_one [simp]: "rnd 1 = 1"
  using rnd_of_int [of 1] by simp

lemma fl_zero [simp]: "fl 0 = Fin 0"
  by (simp add: fl_def)

lemma fl_numeral [simp]:
  assumes "numeral k < (2::nat) ^ 53"
  shows "fl (numeral k) = Fin (numeral k)"
  using assms by (rule fl_numeral_nat)

lemma fl_one [simp]: "fl 1 = Fin 1"
  using fl_of_nat [of 1] by simp

lemma shift_hours_23_04: "shift_hours ''23:00'' ''04:00'' = 5"
  by (simp add: shift_hours_def time_value_examples elapsed_def)

lemma shift_hours_22_06: "shift_hours ''22:00'' ''06:00'' = 8"
  by (simp add: shift_hours_def time_value_examples elapsed_def)

lemma bucket_count_5: "bucket_count 5 = 20"
  by (simp add: bucket_count_def)

lemma jmod_24:
  assumes "0 \<le> x"
  shows "jmod (Fin x) (Fin 24) = Fin (x - 24 * of_int \<lfloor>x / 24\<rfloor>)"
  using assms by (simp add: trunc_def)

lemma current_hour_23:
  assumes "i < 20"
  shows "jmod (jadd (Fin 23) (Fin (of_nat i / 4))) (Fin 24)
         = Fin (if i < 4 then 23 + of_nat i / 4 else of_nat i / 4 - 1)"
proof -
  have "(20::nat) \<le> 2 ^ 53" by simp
  have "92 + i \<le> 2 ^ 53" using assms by simp
  then have f: "fl (of_nat (92 + i) / 4) = Fin (of_nat (92 + i) / 4)" by (rule fl_quarters)
  have e: "(23::rat) + of_nat i / 4 = of_nat (92 + i) / 4" by simp
  have a: "jadd (Fin 23) (Fin (of_nat i / 4)) = Fin (23 + of_nat i / 4)"
    unfolding jadd.simps e by (rule f)
  define x :: rat where "x = 23 + of_nat i / 4"
  have "(of_nat i :: rat) < of_nat 20" using assms by (simp only: of_nat_less_iff)
  then have ib: "(of_nat i :: rat) < 20" by simp
  have x0: "0 \<le> x" by (simp add: x_def)
  show ?thesis
  proof (cases "i < 4")
    case True
    then have "(of_nat i :: rat) < of_nat 4" by (simp only: of_nat_less_iff)
    then have "x < 24" by (simp add: x_def)
    then have "\<lfloor>x / 24\<rfloor> = 0" using x0 by (intro floor_unique) simp_all
    then show ?thesis
      unfolding a x_def [symmetric] jmod_24 [OF x0] using True by (simp add: x_def)
  next
    case False
    then have "(of_nat 4 :: rat) \<le> of_nat i" by (simp only: of_nat_le_iff)
    then have "24 \<le> x" "x < 48" using ib by (simp_all add: x_def)
    then have "\<lfloor>x / 24\<rfloor> = 1" by (intro floor_unique) simp_all
    then show ?thesis
      unfolding a x_def [symmetric] jmod_24 [OF x0] using False by (simp add: x_def)
  qed
qed

lemma night_at_23:
  assumes "i < 20"
  shows "night_at (Fin 23) i"
proof -
  have "(of_nat i :: rat) < of_nat 20" using assms by (simp only: of_nat_less_iff)
  then have "(of_nat i :: rat) < 20" by simp
  then show ?thesis
    unfolding night_at_def current_hour_23 [OF assms] by (simp add: jge_def)
qed

lemma night_buckets_23: "night_buckets (Fin 23) 0 20 = 20"
proof -
  have "filter (night_at (Fin 23)) [0..<20] = [0..<20]"
    by (rule filter_True) (simp add: night_at_23)
  then show ?thesis by (simp add: night_buckets_def)
qed

lemma wage_23_04:
  "calculateWage ''1000'' ''23:00'' ''04:00''
   = Some (Inr \<lparr>totalHours = Fin 5, nightHours = Fin 5, normalHours = Fin 0,
                  normalPay = Fin 0, nightPay = Fin 6250, totalPay = Fin 6250\<rparr>)"
proof -
  have n: "shift_night_buckets ''23:00'' ''04:00'' = 20"
    by (simp add: shift_night_buckets_def shift_hours_23_04 bucket_count_5
        time_value_examples night_buckets_23)
  have "calculateWage ''1000'' ''23:00'' ''04:00'' = Some (Inr (wage_of (Fin 1000) 5 20))"
    using calculateWage_valid [OF valid_examples(1,2) rate_accepted_1000]
    by (simp only: parseFloat_1000 shift_hours_23_04 n)
  also have "wage_of (Fin 1000) 5 20
    = \<lparr>totalHours = Fin 5, nightHours = Fin 5, normalHours = Fin 0,
       normalPay = Fin 0, nightPay = Fin 6250, totalPay = Fin 6250\<rparr>"
    by (simp add: wage_of_def jsub_def)
  finally show ?thesis .
qed

lemma rnd_sixtieth: "rnd (1 / 60) = 4803839602528529 / 288230376151711744"
proof -
  have "rnd (1 / 60) = of_int 4803839602528529 * 2 powi (- 58)"
    by (rule rnd_cert) (simp_all add: power_int_minus)
  then show ?thesis by (simp add: power_int_minus)
qed

lemma rnd_sixtieth_fixed:
  "rnd (4803839602528529 / 288230376151711744) = 4803839602528529 / 288230376151711744"
proof -
  have "rnd (rnd (1 / 60)) = rnd (1 / 60)" by (rule rnd_idem)
  then show ?thesis by (simp only: rnd_sixtieth)
qed

lemma time_value_00_01: "time_value ''00:01'' = 4803839602528529 / 288230376151711744"
proof -
  have "time_value ''00:01'' = rnd (rnd (1 / 60))"
    by (simp add: time_value_def hour_of_def minute_of_def digit_val_def decimalHours_def)
  then show ?thesis by (simp only: rnd_sixtieth rnd_sixtieth_fixed)
qed

lemma shift_hours_00_01:
  "shift_hours ''00:00'' ''00:01'' = 4803839602528529 / 288230376151711744"
proof -
  have "shift_hours ''00:00'' ''00:01'' = rnd (rnd (1 / 60))"
    by (simp add: shift_hours_def time_value_examples time_value_00_01 elapsed_def
        rnd_sixtieth rnd_sixtieth_fixed)
  then show ?thesis by (simp only: rnd_sixtieth rnd_sixtieth_fixed)
qed

lemma bucket_count_00_01: "bucket_count (4803839602528529 / 288230376151711744) = 1"
proof -
  have "\<lceil>4 * (4803839602528529 / 288230376151711744 :: rat)\<rceil> = 1"
    by (rule ceiling_unique) simp_all
  then show ?thesis by (simp add: bucket_count_def)
qed

lemma night_at_midnight: "night_at (Fin 0) 0"
  by (simp add: night_at_def trunc_def)

lemma shift_night_buckets_00_01: "shift_night_buckets ''00:00'' ''00:01'' = 1"
  by (simp add: shift_night_buckets_def shift_hours_00_01 bucket_count_00_01
      time_value_examples night_buckets_def night_at_midnight)

lemma wage_00_01:
  "calculateWage ''1000'' ''00:00'' ''00:01''
   = Some (Inr (wage_of (Fin 1000) (4803839602528529 / 288230376151711744) 1))"
  using calculateWage_valid [OF valid_examples(3,4) rate_accepted_1000]
  by (simp only: parseFloat_1000 shift_hours_00_01 shift_night_buckets_00_01)

lemma normal_00_01:
  "jsub (Fin (4803839602528529 / 288230376151711744)) (Fin (1 / 4))
   = Fin (- (4203359652212463 / 18014398509481984))"
proof -
  define x :: rat where "x = 4803839602528529 / 288230376151711744 - 1 / 4"
  have "rnd x = of_int (- 8406719304424926) * 2 powi (- 55)"
    by (rule rnd_cert) (simp_all add: power_int_minus x_def)
  then have r: "rnd x = - (4203359652212463 / 18014398509481984)"
    by (simp add: power_int_minus)
  have "\<bar>x\<bar> \<le> 64" by (simp add: x_def)
  then have "fl x = Fin (rnd x)" by (rule fl_small)
  then show ?thesis by (simp add: jsub_def x_def [symmetric] r)
qed

lemma sum_00_01:
  "jadd (Fin (- (4203359652212463 / 18014398509481984))) (Fin (1 / 4))
   = Fin (300239975158033 / 18014398509481984)"
proof -
  define x :: rat where "x = - (4203359652212463 / 18014398509481984) + 1 / 4"
  have x: "x = of_int 300239975158033 * 2 powi (- 54)"
    by (simp add: x_def power_int_minus)
  have "rnd x = x" using x by (rule rnd_exact) simp_all
  moreover have "\<bar>x\<bar> \<le> 64" by (simp add: x_def)
  then have "fl x = Fin (rnd x)" by (rule fl_small)
  ultimately show ?thesis by (simp add: x_def)
qed

section \<open>Normal hours and quarter hours\<close>

lemma quarter_diff_exact:
  assumes fx: "rnd t = t" and t0: "0 \<le> t" and t32: "t < 32" and le: "of_nat n / 4 \<le> t"
  shows "rnd (t - of_nat n / 4) = t - of_nat n / 4"
proof (cases "t = 0")
  case True
  with le have "(of_nat n :: rat) \<le> 0" by simp
  then have "n = 0" by simp
  with True show ?thesis by simp
next
  case False
  define q where "q = max (ilog2 t - 52) (- 1074)"
  from rnd_repr [OF False] obtain m where
    m: "rnd t = of_int m * 2 powi q" "\<bar>m\<bar> \<le> 2 ^ 53"
    unfolding q_def by blast
  have tm: "t = of_int m * 2 powi q" using m(1) fx by simp
  have "\<bar>t\<bar> < 2 powi 5" using t0 t32 by simp
  with False have "q \<le> 5 - 53" unfolding q_def by (rule quantum_le) simp
  then have q48: "q \<le> - 48" by simp
  have qlo: "- 1074 \<le> q" by (simp add: q_def)
  define k where "k = nat (- 2 - q)"
  have "(2::rat) powi (- 2) = 2 powi (- 2 - q) * 2 powi q"
    by (simp flip: power_int_add)
  also have "(2::rat) powi (- 2 - q) = 2 ^ k"
    using q48 by (simp add: k_def power_int_def)
  finally have quarter: "(1::rat) / 4 = 2 ^ k * 2 powi q"
    by (simp add: power_int_minus)
  define m' where "m' = m - int n * 2 ^ k"
  have d: "t - of_nat n / 4 = of_int m' * 2 powi q"
  proof -
    have "of_nat n / 4 = of_nat n * ((1::rat) / 4)" by simp
    also have "\<dots> = of_int (int n * 2 ^ k) * 2 powi q"
      unfolding quarter by simp
    finally show ?thesis
      unfolding tm m'_def by (simp add: algebra_simps)
  qed
  have p: "(0::rat) < 2 powi q" by simp
  have "0 \<le> of_int m' * (2::rat) powi q" using le d by simp
  then have "(0::rat) \<le> of_int m'" using p by (simp add: zero_le_mult_iff)
  then have m'0: "0 \<le> m'" by simp
  have "m' \<le> m" by (simp add: m'_def)
  with m'0 m(2) have "\<bar>m'\<bar> \<le> 2 ^ 53" by simp
  with d show ?thesis using qlo by (rule rnd_exact)
qed

lemma jsub_quarters_exact:
  assumes fx: "rnd t = t" and t0: "0 \<le> t" and t24: "t < 24" and le: "of_nat n / 4 \<le> t"
  shows "jsub (Fin t) (Fin (of_nat n / 4)) = Fin (t - of_nat n / 4)"
proof -
  define x where "x = t - of_nat n / 4"
  have n0: "(0::rat) \<le> of_nat n / 4" by simp
  have "rnd x = x" unfolding x_def using fx t0 _ le by (rule quarter_diff_exact) (use t24 in simp)
  moreover have "\<bar>x\<bar> \<le> 64" using t0 t24 le n0 unfolding x_def by linarith
  then have "fl x = Fin (rnd x)" by (rule fl_small)
  ultimately show ?thesis by (simp add: jsub_def x_def)
qed

lemma normal_plus_night_exact:
  assumes fx: "rnd t = t" and t0: "0 \<le> t" and t24: "t < 24" and le: "of_nat n / 4 \<le> t"
  shows "jadd (jsub (Fin t) (Fin (of_nat n / 4))) (Fin (of_nat n / 4)) = Fin t"
proof -
  have "\<bar>t\<bar> \<le> 64" using t0 t24 by linarith
  then have "fl t = Fin (rnd t)" by (rule fl_small)
  then show ?thesis unfolding jsub_quarters_exact [OF assms] by (simp add: fx)
qed

lemma normal_near:
  assumes t0: "0 \<le> t" and t24: "t < 24" and n: "n \<le> 96"
  shows "\<exists>x. jsub (Fin t) (Fin (of_nat n / 4)) = Fin x \<and> \<bar>x + of_nat n / 4 - t\<bar> \<le> 1 / 2 ^ 49"
proof -
  define y where "y = t - of_nat n / 4"
  have "(of_nat n :: rat) \<le> of_nat 96" using n by (simp only: of_nat_le_iff)
  then have nb: "(of_nat n :: rat) / 4 \<le> 24" "(0::rat) \<le> of_nat n / 4" by simp_all
  have b: "\<bar>y\<bar> < 32" "\<bar>y\<bar> \<le> 64" using t0 t24 nb unfolding y_def by linarith+
  have "fl y = Fin (rnd y)" using b(2) by (rule fl_small)
  then have "jsub (Fin t) (Fin (of_nat n / 4)) = Fin (rnd y)" by (simp add: jsub_def y_def)
  moreover have "\<bar>rnd y - y\<bar> \<le> 1 / 2 ^ 49" using b(1) by (rule rnd_error_32)
  then have "\<bar>rnd y + of_nat n / 4 - t\<bar> \<le> 1 / 2 ^ 49" by (simp add: y_def algebra_simps)
  ultimately show ?thesis by blast
qed

lemma shift_hours_fixed: "rnd (shift_hours s e) = shift_hours s e"
  by (simp add: shift_hours_def elapsed_def)

lemma shift_night_buckets_le: "shift_night_buckets s e \<le> bucket_count (shift_hours s e)"
  unfolding shift_night_buckets_def using night_buckets_le [of _ 0] by simp

lemma bucket_count_less:
  assumes "0 \<le> t"
  shows "of_nat (bucket_count t) / 4 < t + 1 / 4"
proof -
  have "0 \<le> \<lceil>4 * t\<rceil>" using assms by (simp add: ceiling_le_iff le_ceiling_iff)
  then have "(of_nat (bucket_count t) :: rat) = of_int \<lceil>4 * t\<rceil>"
    by (simp add: bucket_count_def)
  moreover have "of_int \<lceil>4 * t\<rceil> < 4 * t + 1" by linarith
  ultimately show ?thesis by simp
qed

lemma bucket_count_quarters [simp]: "bucket_count (of_nat k / 4) = k"
  by (simp add: bucket_count_def)

lemma rnd_nat_quarters:
  assumes "n \<le> 2 ^ 53"
  shows "rnd (of_nat n / 4) = of_nat n / 4"
  using rnd_quarters [of "int n"] assms by simp

lemma decimalHours_quarter:
  assumes "h \<le> 23" and "j \<le> 3"
  shows "decimalHours h (15 * j) = of_nat (4 * h + j) / 4"
proof -
  have a: "(of_nat (15 * j) :: rat) / 60 = of_nat j / 4" by simp
  have "j \<le> 2 ^ 53" using assms(2) by simp
  then have b: "rnd (of_nat j / 4) = of_nat j / 4" by (rule rnd_nat_quarters)
  have c: "(of_nat h :: rat) + of_nat j / 4 = of_nat (4 * h + j) / 4" by simp
  have "4 * h + j \<le> 2 ^ 53" using assms by simp
  then have "rnd (of_nat (4 * h + j) / 4) = of_nat (4 * h + j) / 4" by (rule rnd_nat_quarters)
  then show ?thesis unfolding decimalHours_def a b c .
qed

lemma elapsed_quarters:
  assumes "a < 96" and "b < 96"
  shows "\<exists>k. elapsed (of_nat a / 4) (of_nat b / 4) = of_nat k / 4"
proof (cases "a \<le> b")
  case True
  then have d: "(of_nat b :: rat) / 4 - of_nat a / 4 = of_nat (b - a) / 4"
    by (simp add: of_nat_diff field_simps)
  have "b - a \<le> 2 ^ 53" using assms by simp
  then have "rnd (of_nat (b - a) / 4) = of_nat (b - a) / 4" by (rule rnd_nat_quarters)
  then have "elapsed (of_nat a / 4) (of_nat b / 4) = of_nat (b - a) / 4"
    using True by (simp add: elapsed_def d)
  then show ?thesis ..
next
  case False
  have d: "(24::rat) - of_nat a / 4 = of_nat (96 - a) / 4"
    using assms(1) by (simp add: of_nat_diff field_simps)
  have "96 - a \<le> 2 ^ 53" by simp
  then have r1: "rnd (of_nat (96 - a) / 4) = of_nat (96 - a) / 4" by (rule rnd_nat_quarters)
  have s: "(of_nat (96 - a) :: rat) / 4 + of_nat b / 4 = of_nat (96 - a + b) / 4"
    by (simp add: field_simps)
  have "96 - a + b \<le> 2 ^ 53" using assms by simp
  then have r2: "rnd (of_nat (96 - a + b) / 4) = of_nat (96 - a + b) / 4"
    by (rule rnd_nat_quarters)
  have "elapsed (of_nat a / 4) (of_nat b / 4) = of_nat (96 - a + b) / 4"
    using False unfolding elapsed_def d r1 s r2 by simp
  then show ?thesis ..
qed

lemma time_value_quarter:
  assumes "validateTimeFormat s" and "minute_of s mod 15 = 0"
  shows "\<exists>a<96. time_value s = of_nat a / 4"
proof -
  note v = timeToDecimal_valid(2,3) [OF assms(1)]
  define j where "j = minute_of s div 15"
  have m: "minute_of s = 15 * j" using assms(2) by (auto simp: j_def)
  have j: "j \<le> 3" using v(2) by (simp add: j_def)
  have "time_value s = of_nat (4 * hour_of s + j) / 4"
    unfolding time_value_def m using v(1) j by (rule decimalHours_quarter)
  moreover have "4 * hour_of s + j < 96" using v(1) j by simp
  ultimately show ?thesis by blast
qed

lemma shift_hours_quarter:
  assumes "validateTimeFormat s" and "validateTimeFormat e"
    and "minute_of s mod 15 = 0" and "minute_of e mod 15 = 0"
  shows "\<exists>k. shift_hours s e = of_nat k / 4"
proof -
  from time_value_quarter [OF assms(1,3)] obtain a where a: "a < 96" "time_value s = of_nat a / 4"
    by blast
  from time_value_quarter [OF assms(2,4)] obtain b where b: "b < 96" "time_value e = of_nat b / 4"
    by blast
  show ?thesis unfolding shift_hours_def a(2) b(2) using a(1) b(1) by (rule elapsed_quarters)
qed

lemma calculateWage_never_InvalidTime: "calculateWage r s e \<noteq> Some (Inl InvalidTime)"
proof (cases "validateTimeFormat s \<and> validateTimeFormat e")
  case False
  then show ?thesis by (auto simp: calculateWage_def)
next
  case True
  show ?thesis
  proof (cases "rate_accepted r")
    case True
    with \<open>validateTimeFormat s \<and> validateTimeFormat e\<close> show ?thesis
      by (simp add: calculateWage_valid)
  next
    case False
    with True show ?thesis by (auto simp: calculateWage_def rate_accepted_def)
  qed
qed

lemma fl_neg_of_nat:
  assumes "n < 2 ^ 53"
  shows "fl (- of_nat n) = Fin (- of_nat n)"
proof -
  have "rnd (of_int (int n)) = of_int (int n)"
    using assms by (intro rnd_of_int) simp
  then have r: "rnd (- of_nat n) = - of_nat n" by (simp add: rnd_minus)
  have "(of_nat n :: rat) < of_nat (2 ^ 53)" using assms by (simp only: of_nat_less_iff)
  then have "(of_nat n :: rat) < 2 ^ 53" by simp
  moreover have "(2::rat) ^ 53 < 2 ^ 1023" by simp
  ultimately have "\<bar>- of_nat n :: rat\<bar> < 2 ^ 1023" by simp
  then have "fl (- of_nat n) = Fin (rnd (- of_nat n))" by (rule fl_finite)
  then show ?thesis by (simp only: r)
qed

lemma parseFloat_examples:
  "parseFloat ''abc'' = NaN" "parseFloat ''0'' = Fin 0" "parseFloat ''-5'' = Fin (- 5)"
proof -
  show "parseFloat ''abc'' = NaN"
    by (simp add: parseFloat_def strip_sign_def is_space_def is_digit_def char_in_def)
  show "parseFloat ''0'' = Fin 0"
    by (simp add: parseFloat_def strip_sign_def is_space_def is_digit_def char_in_def
        digits_val_def digit_val_def exponent_part_def)
  have "fl (- 5) = Fin (- 5)" using fl_neg_of_nat [of 5] by simp
  then show "parseFloat ''-5'' = Fin (- 5)"
    by (simp add: parseFloat_def strip_sign_def is_space_def is_digit_def char_in_def
        digits_val_def digit_val_def exponent_part_def)
qed

lemma more_valid_examples:
  "validateTimeFormat ''09:00''" "validateTimeFormat ''17:00''" "validateTimeFormat ''09:30''"
  "\<not> validateTimeFormat ''24:00''" "\<not> validateTimeFormat ''9:00''"
  by (simp_all add: validateTimeFormat_shape spec_time_shape_def is_digit_def digit_val_def char_in_def)

lemma parseFloat_Infinity: "parseFloat ''Infinity'' = PosInf"
  by (simp add: parseFloat_def strip_sign_def is_space_def)

lemma rate_accepted_Infinity: "rate_accepted ''Infinity''"
  by (simp add: rate_accepted_def parseFloat_Infinity isNaN_def)

lemma rate_accepted_cases:
  assumes "rate_accepted r"
  shows "(\<exists>w. parseFloat r = Fin w \<and> 0 < w) \<or> parseFloat r = PosInf"
  using assms by (cases "parseFloat r") (simp_all add: rate_accepted_def isNaN_def)

lemma same_time_wage:
  assumes "validateTimeFormat s" and "rate_accepted r"
  shows "calculateWage r s s = Some (Inr (wage_of (parseFloat r) 0 0))"
proof -
  have t: "shift_hours s s = 0" by (simp add: shift_hours_def elapsed_def)
  have n: "shift_night_buckets s s = 0"
    by (simp add: shift_night_buckets_def t bucket_count_def)
  show ?thesis
    using calculateWage_valid [OF assms(1) assms(1) assms(2)] by (simp only: t n)
qed

section \<open>The claims\<close>

text \<open>
  C1, as amended. For valid times and an accepted rate the calculation returns a
  breakdown whose \<open>nightHours\<close> is a non-negative multiple \<open>n / 4\<close> of the bucket size with
  \<open>nightHours < totalHours + 1/4\<close>: the sweep counts whole buckets, the last one also when
  the shift ends inside it. When both times lie on a quarter hour, \<open>totalHours\<close> is a
  multiple of \<open>1/4\<close>, and whenever it is one, \<open>nightHours \<le> totalHours\<close> and \<open>normalHours\<close>
  is not negative.
\<close>

theorem night_hours_bounded:
  assumes "validateTimeFormat s" and "validateTimeFormat e" and "rate_accepted r"
  shows "\<exists>b n t. calculateWage r s e = Some (Inr b)
           \<and> totalHours b = Fin t \<and> nightHours b = Fin (of_nat n / 4)
           \<and> 0 \<le> t \<and> of_nat n / 4 < t + 1 / 4
           \<and> (minute_of s mod 15 = 0 \<and> minute_of e mod 15 = 0 \<longrightarrow> (\<exists>k. t = of_nat k / 4))
           \<and> ((\<exists>k. t = of_nat k / 4) \<longrightarrow>
                 of_nat n / 4 \<le> t \<and> jle (nightHours b) (totalHours b)
                 \<and> jle (Fin 0) (normalHours b))"
proof -
  define t where "t = shift_hours s e"
  define n where "n = shift_night_buckets s e"
  define b where "b = wage_of (parseFloat r) t n"
  note tb = shift_hours_bounds(2,3) [OF assms(1,2), folded t_def]
  have nle: "n \<le> bucket_count t" unfolding n_def t_def by (rule shift_night_buckets_le)
  have res: "calculateWage r s e = Some (Inr b)"
    unfolding b_def t_def n_def using assms by (rule calculateWage_valid)
  have fields: "totalHours b = Fin t" "nightHours b = Fin (of_nat n / 4)"
      "normalHours b = jsub (Fin t) (Fin (of_nat n / 4))"
    by (simp_all add: b_def wage_of_def)
  have "(of_nat n :: rat) \<le> of_nat (bucket_count t)" using nle by (simp only: of_nat_le_iff)
  with bucket_count_less [OF tb(1)] have lt: "of_nat n / 4 < t + 1 / 4" by simp
  have quarter: "\<exists>k. t = of_nat k / 4" if "minute_of s mod 15 = 0 \<and> minute_of e mod 15 = 0"
  proof -
    from that have "minute_of s mod 15 = 0" "minute_of e mod 15 = 0" by blast+
    with assms(1,2) show ?thesis unfolding t_def by (rule shift_hours_quarter)
  qed
  have whole: "of_nat n / 4 \<le> t \<and> jle (nightHours b) (totalHours b) \<and> jle (Fin 0) (normalHours b)"
    if "\<exists>k. t = of_nat k / 4"
  proof -
    from that obtain k where k: "t = of_nat k / 4" ..
    have "n \<le> k" using nle by (simp add: k)
    then have "(of_nat n :: rat) \<le> of_nat k" by (simp only: of_nat_le_iff)
    then have le: "of_nat n / 4 \<le> t" by (simp add: k)
    have "rnd t = t" unfolding t_def by (rule shift_hours_fixed)
    then have "jsub (Fin t) (Fin (of_nat n / 4)) = Fin (t - of_nat n / 4)"
      using tb le by (rule jsub_quarters_exact)
    then show ?thesis using le by (simp add: fields)
  qed
  show ?thesis using res fields(1,2) tb(1) lt quarter whole by blast
qed

theorem night_hours_bounded_witness:
  "validateTimeFormat ''23:00'' \<and> validateTimeFormat ''04:00'' \<and> rate_accepted ''1000''
   \<and> minute_of ''23:00'' mod 15 = 0 \<and> minute_of ''04:00'' mod 15 = 0
   \<and> (\<exists>b n t. calculateWage ''1000'' ''23:00'' ''04:00'' = Some (Inr b)
         \<and> totalHours b = Fin t \<and> nightHours b = Fin (of_nat n / 4)
         \<and> (\<exists>k. t = of_nat k / 4) \<and> of_nat n / 4 \<le> t
         \<and> jle (nightHours b) (totalHours b) \<and> jle (Fin 0) (normalHours b))"
proof -
  have m: "minute_of ''23:00'' mod 15 = 0" "minute_of ''04:00'' mod 15 = 0"
    by (simp_all add: minute_of_def digit_val_def)
  from night_hours_bounded [OF valid_examples(1,2) rate_accepted_1000]
  obtain b n t where r: "calculateWage ''1000'' ''23:00'' ''04:00'' = Some (Inr b)"
    and f: "totalHours b = Fin t" "nightHours b = Fin (of_nat n / 4)"
    and q: "minute_of ''23:00'' mod 15 = 0 \<and> minute_of ''04:00'' mod 15 = 0
             \<longrightarrow> (\<exists>k. t = of_nat k / 4)"
    and w: "(\<exists>k. t = of_nat k / 4) \<longrightarrow>
       of_nat n / 4 \<le> t \<and> jle (nightHours b) (totalHours b) \<and> jle (Fin 0) (normalHours b)"
    by blast
  from q m have q': "\<exists>k. t = of_nat k / 4" by (rule mp [OF _ conjI])
  from w q' have w': "of_nat n / 4 \<le> t \<and> jle (nightHours b) (totalHours b)
      \<and> jle (Fin 0) (normalHours b)"
    by (rule mp)
  have "\<exists>b n t. calculateWage ''1000'' ''23:00'' ''04:00'' = Some (Inr b)
         \<and> totalHours b = Fin t \<and> nightHours b = Fin (of_nat n / 4)
         \<and> (\<exists>k. t = of_nat k / 4) \<and> of_nat n / 4 \<le> t
         \<and> jle (nightHours b) (totalHours b) \<and> jle (Fin 0) (normalHours b)"
    using r f q' w' by (intro exI [of _ b] exI [of _ n] exI [of _ t]) (intro conjI; elim conjE; assumption)
  then show ?thesis
    using m valid_examples(1,2) rate_accepted_1000 by (intro conjI)
qed

text \<open>
  The claim C1 as stated fails: from 00:00 to 00:01 the shift lasts a sixtieth of an
  hour, the one sample at offset 0 is a night sample, so \<open>nightHours\<close> is \<open>1/4\<close>, more
  than \<open>totalHours\<close>, and \<open>normalHours\<close> is negative.
\<close>

theorem night_hours_exceed_total:
  "\<exists>b. calculateWage ''1000'' ''00:00'' ''00:01'' = Some (Inr b)
       \<and> totalHours b = Fin (4803839602528529 / 288230376151711744)
       \<and> nightHours b = Fin (1 / 4)
       \<and> \<not> jle (nightHours b) (totalHours b)
       \<and> jlt (normalHours b) (Fin 0)"
  by (simp add: wage_00_01 wage_of_def normal_00_01)

text \<open>
  C2, as amended. For valid times and an accepted rate, \<open>normalHours\<close> is the rounded
  difference \<open>totalHours - nightHours\<close>, so \<open>normalHours + nightHours\<close> differs from
  \<open>totalHours\<close> by at most one rounding error (\<open>2\<^sup>-\<^sup>4\<^sup>9\<close> of an hour) and equals it exactly
  whenever \<open>nightHours \<le> totalHours\<close>; and \<open>totalPay\<close> is
  \<open>normalHours * rate + nightHours * rate * 1.25\<close>, evaluated in that order.
\<close>

theorem normal_hours_derived:
  assumes "validateTimeFormat s" and "validateTimeFormat e" and "rate_accepted r"
  shows "\<exists>b t n x. calculateWage r s e = Some (Inr b)
           \<and> totalHours b = Fin t \<and> nightHours b = Fin n \<and> normalHours b = Fin x
           \<and> normalHours b = jsub (totalHours b) (nightHours b)
           \<and> \<bar>x + n - t\<bar> \<le> 1 / 2 ^ 49
           \<and> (n \<le> t \<longrightarrow> jadd (normalHours b) (nightHours b) = totalHours b)
           \<and> totalPay b = jadd (jmul (normalHours b) (parseFloat r))
                                (jmul (jmul (nightHours b) (parseFloat r)) (Fin (5 / 4)))"
proof -
  define t where "t = shift_hours s e"
  define k where "k = shift_night_buckets s e"
  define b where "b = wage_of (parseFloat r) t k"
  note tb = shift_hours_bounds(2,3) [OF assms(1,2), folded t_def]
  have "t \<le> 24" using tb(2) by simp
  then have "bucket_count t \<le> 96" by (rule bucket_count_le)
  moreover have "k \<le> bucket_count t" unfolding k_def t_def by (rule shift_night_buckets_le)
  ultimately have k96: "k \<le> 96" by simp
  have res: "calculateWage r s e = Some (Inr b)"
    unfolding b_def t_def k_def using assms by (rule calculateWage_valid)
  from normal_near [OF tb k96] obtain x where
    x: "jsub (Fin t) (Fin (of_nat k / 4)) = Fin x" "\<bar>x + of_nat k / 4 - t\<bar> \<le> 1 / 2 ^ 49"
    by blast
  have fields: "totalHours b = Fin t" "nightHours b = Fin (of_nat k / 4)"
      "normalHours b = Fin x" "normalHours b = jsub (totalHours b) (nightHours b)"
      "totalPay b = jadd (jmul (normalHours b) (parseFloat r))
                         (jmul (jmul (nightHours b) (parseFloat r)) (Fin (5 / 4)))"
    by (simp_all add: b_def wage_of_def x(1))
  have exact: "jadd (normalHours b) (nightHours b) = totalHours b" if "of_nat k / 4 \<le> t"
  proof -
    have "rnd t = t" unfolding t_def by (rule shift_hours_fixed)
    then have "jadd (jsub (Fin t) (Fin (of_nat k / 4))) (Fin (of_nat k / 4)) = Fin t"
      using tb that by (rule normal_plus_night_exact)
    then show ?thesis by (simp only: fields(1,2,4))
  qed
  show ?thesis
    using res fields x(2) exact
    by (intro exI [of _ b] exI [of _ t] exI [of _ "of_nat k / 4"] exI [of _ x]) blast
qed

theorem normal_hours_derived_witness:
  "validateTimeFormat ''23:00'' \<and> validateTimeFormat ''04:00'' \<and> rate_accepted ''1000''
   \<and> (\<exists>b t n. calculateWage ''1000'' ''23:00'' ''04:00'' = Some (Inr b)
         \<and> totalHours b = Fin t \<and> nightHours b = Fin n \<and> n \<le> t
         \<and> jadd (normalHours b) (nightHours b) = totalHours b
         \<and> totalPay b = jadd (jmul (normalHours b) (parseFloat ''1000''))
                              (jmul (jmul (nightHours b) (parseFloat ''1000'')) (Fin (5 / 4))))"
proof -
  from normal_hours_derived [OF valid_examples(1,2) rate_accepted_1000]
  obtain b t n where r: "calculateWage ''1000'' ''23:00'' ''04:00'' = Some (Inr b)"
    and f: "totalHours b = Fin t" "nightHours b = Fin n"
    and i: "n \<le> t \<longrightarrow> jadd (normalHours b) (nightHours b) = totalHours b"
    and p: "totalPay b = jadd (jmul (normalHours b) (parseFloat ''1000''))
                              (jmul (jmul (nightHours b) (parseFloat ''1000'')) (Fin (5 / 4)))"
    by blast
  from r have "b = \<lparr>totalHours = Fin 5, nightHours = Fin 5, normalHours = Fin 0,
      normalPay = Fin 0, nightPay = Fin 6250, totalPay = Fin 6250\<rparr>"
    by (simp add: wage_23_04)
  with f have "t = 5" "n = 5" by simp_all
  then have le: "n \<le> t" by simp
  with i have s: "jadd (normalHours b) (nightHours b) = totalHours b" by (rule mp)
  have "\<exists>b t n. calculateWage ''1000'' ''23:00'' ''04:00'' = Some (Inr b)
         \<and> totalHours b = Fin t \<and> nightHours b = Fin n \<and> n \<le> t
         \<and> jadd (normalHours b) (nightHours b) = totalHours b
         \<and> totalPay b = jadd (jmul (normalHours b) (parseFloat ''1000''))
                              (jmul (jmul (nightHours b) (parseFloat ''1000'')) (Fin (5 / 4)))"
    using r f le s p by (intro exI [of _ b] exI [of _ t] exI [of _ n]) (intro conjI; assumption)
  then show ?thesis
    using valid_examples(1,2) rate_accepted_1000 by (intro conjI)
qed

text \<open>
  The claim C2 as stated fails in binary64 arithmetic: from 00:00 to 00:01
  \<open>normalHours\<close> is the rounded value of \<open>1/60 - 1/4\<close>, and adding \<open>1/4\<close> back gives
  \<open>0.016666666666666663\<close>, not the \<open>totalHours\<close> \<open>0.016666666666666666\<close>.
\<close>

theorem normal_plus_night_differs:
  "\<exists>b. calculateWage ''1000'' ''00:00'' ''00:01'' = Some (Inr b)
       \<and> totalHours b = Fin (4803839602528529 / 288230376151711744)
       \<and> jadd (normalHours b) (nightHours b) = Fin (300239975158033 / 18014398509481984)
       \<and> jadd (normalHours b) (nightHours b) \<noteq> totalHours b"
proof -
  define b where "b = wage_of (Fin 1000) (4803839602528529 / 288230376151711744) 1"
  have r: "calculateWage ''1000'' ''00:00'' ''00:01'' = Some (Inr b)"
    unfolding b_def by (rule wage_00_01)
  have t: "totalHours b = Fin (4803839602528529 / 288230376151711744)"
    and n: "nightHours b = Fin (1 / 4)"
    and x: "normalHours b = Fin (- (4203359652212463 / 18014398509481984))"
    using normal_00_01 by (simp_all add: b_def wage_of_def)
  have s: "jadd (normalHours b) (nightHours b) = Fin (300239975158033 / 18014398509481984)"
    unfolding x n by (rule sum_00_01)
  have "jadd (normalHours b) (nightHours b) \<noteq> totalHours b"
    unfolding s t by simp
  with r t s show ?thesis by blast
qed

text \<open>
  C3. Step 6 computes \<open>end - start\<close> when \<open>end \<ge> start\<close> and \<open>(24 - start) + end\<close>
  otherwise, each operation in binary64 arithmetic. For the decimal hours of two valid
  time strings the result is a finite number in \<open>[0, 24)\<close>, and it is the \<open>totalHours\<close> of
  the calculation; from 22:00 to 06:00 it is 8.
\<close>

theorem total_hours_rule:
  assumes "validateTimeFormat s" and "validateTimeFormat e"
  shows "(\<forall>a b. computeTotalHours (Fin a) (Fin b)
                 = (if a \<le> b then jsub (Fin b) (Fin a) else jadd (jsub (Fin 24) (Fin a)) (Fin b)))
         \<and> (\<exists>a b t. timeToDecimal s = Fin a \<and> timeToDecimal e = Fin b
                \<and> computeTotalHours (Fin a) (Fin b) = Fin t \<and> 0 \<le> t \<and> t < 24
                \<and> t = (if a \<le> b then rnd (b - a) else rnd (rnd (24 - a) + b))
                \<and> (rate_accepted r \<longrightarrow>
                      (\<exists>w. calculateWage r s e = Some (Inr w) \<and> totalHours w = Fin t)))
         \<and> computeTotalHours (timeToDecimal ''22:00'') (timeToDecimal ''06:00'') = Fin 8"
proof -
  have rule: "computeTotalHours (Fin a) (Fin b)
      = (if a \<le> b then jsub (Fin b) (Fin a) else jadd (jsub (Fin 24) (Fin a)) (Fin b))" for a b
    by (simp add: computeTotalHours_def jge_def)
  note ts = time_value_bounds(1) [OF assms(1)]
  note te = time_value_bounds(1) [OF assms(2)]
  note sh = shift_hours_bounds [OF assms]
  have c: "computeTotalHours (Fin (time_value s)) (Fin (time_value e)) = Fin (shift_hours s e)"
    using sh(1) by (simp only: ts te)
  have el: "shift_hours s e = (if time_value s \<le> time_value e
      then rnd (time_value e - time_value s) else rnd (rnd (24 - time_value s) + time_value e))"
    by (simp add: shift_hours_def elapsed_def)
  have w: "\<exists>w. calculateWage r s e = Some (Inr w) \<and> totalHours w = Fin (shift_hours s e)"
    if "rate_accepted r"
    using calculateWage_valid [OF assms that] by (simp add: wage_of_def)
  have mid: "\<exists>a b t. timeToDecimal s = Fin a \<and> timeToDecimal e = Fin b
                \<and> computeTotalHours (Fin a) (Fin b) = Fin t \<and> 0 \<le> t \<and> t < 24
                \<and> t = (if a \<le> b then rnd (b - a) else rnd (rnd (24 - a) + b))
                \<and> (rate_accepted r \<longrightarrow>
                      (\<exists>w. calculateWage r s e = Some (Inr w) \<and> totalHours w = Fin t))"
    using ts te c sh(2,3) el w
    by (intro exI [of _ "time_value s"] exI [of _ "time_value e"] exI [of _ "shift_hours s e"])
       blast
  have ex: "computeTotalHours (timeToDecimal ''22:00'') (timeToDecimal ''06:00'') = Fin 8"
    using shift_hours_bounds(1) [OF valid_examples(5,6)] by (simp only: shift_hours_22_06)
  show ?thesis using rule mid ex by blast
qed

theorem total_hours_rule_witness:
  "validateTimeFormat ''22:00'' \<and> validateTimeFormat ''06:00'' \<and> rate_accepted ''1000''
   \<and> (\<exists>w. calculateWage ''1000'' ''22:00'' ''06:00'' = Some (Inr w) \<and> totalHours w = Fin 8)"
proof -
  from total_hours_rule [OF valid_examples(5,6), of "''1000''"]
  obtain a b t where ab: "timeToDecimal ''22:00'' = Fin a" "timeToDecimal ''06:00'' = Fin b"
    and c: "computeTotalHours (Fin a) (Fin b) = Fin t"
    and i: "rate_accepted ''1000'' \<longrightarrow>
              (\<exists>w. calculateWage ''1000'' ''22:00'' ''06:00'' = Some (Inr w) \<and> totalHours w = Fin t)"
    and ex: "computeTotalHours (timeToDecimal ''22:00'') (timeToDecimal ''06:00'') = Fin 8"
    by blast
  from ex c have "t = 8" by (simp add: ab)
  moreover from i rate_accepted_1000
  have "\<exists>w. calculateWage ''1000'' ''22:00'' ''06:00'' = Some (Inr w) \<and> totalHours w = Fin t"
    by (rule mp)
  ultimately have "\<exists>w. calculateWage ''1000'' ''22:00'' ''06:00'' = Some (Inr w) \<and> totalHours w = Fin 8"
    by simp
  then show ?thesis using valid_examples(5,6) rate_accepted_1000 by (intro conjI)
qed

text \<open>
  C4. The validation accepts a string exactly when it consists of two digits, a colon
  and two digits, with the hour digits encoding 00 to 23 and the minute digits 00 to 59;
  nothing is clamped or repaired, and the strings \<open>24:00\<close>, \<open>9:00\<close>, \<open>12:60\<close>, \<open>abcd\<close>
  and the empty string are rejected.
\<close>

theorem validateTimeFormat_spec:
  "(\<forall>s. validateTimeFormat s \<longleftrightarrow> spec_time_shape s)
   \<and> \<not> validateTimeFormat ''24:00'' \<and> \<not> validateTimeFormat ''9:00''
   \<and> \<not> validateTimeFormat ''12:60'' \<and> \<not> validateTimeFormat ''abcd''
   \<and> \<not> validateTimeFormat ''''"
  unfolding validateTimeFormat_shape
  by (simp add: spec_time_shape_def is_digit_def digit_val_def char_in_def)

text \<open>
  C5. With two valid time strings, a rate that \<open>parseFloat\<close> reads as not-a-number or as
  a number \<open>\<le> 0\<close> ends the calculation with \<open>InvalidRate\<close>; no breakdown is produced.
\<close>

theorem invalid_rate_rejected:
  assumes "validateTimeFormat s" and "validateTimeFormat e"
    and "isNaN (parseFloat r) \<or> jle (parseFloat r) (Fin 0)"
  shows "calculateWage r s e = Some (Inl InvalidRate)"
  using assms by (simp add: calculateWage_def)

theorem invalid_rate_rejected_witness:
  "validateTimeFormat ''09:00'' \<and> validateTimeFormat ''17:00''
   \<and> isNaN (parseFloat ''abc'') \<and> jle (parseFloat ''0'') (Fin 0) \<and> jle (parseFloat ''-5'') (Fin 0)
   \<and> calculateWage ''abc'' ''09:00'' ''17:00'' = Some (Inl InvalidRate)
   \<and> calculateWage ''0'' ''09:00'' ''17:00'' = Some (Inl InvalidRate)
   \<and> calculateWage ''-5'' ''09:00'' ''17:00'' = Some (Inl InvalidRate)"
proof -
  have a: "isNaN (parseFloat ''abc'')" by (simp add: parseFloat_examples isNaN_def)
  have z: "jle (parseFloat ''0'') (Fin 0)" by (simp add: parseFloat_examples)
  have n: "jle (parseFloat ''-5'') (Fin 0)" by (simp add: parseFloat_examples)
  note v = more_valid_examples(1,2)
  show ?thesis
    using v a z n
      invalid_rate_rejected [OF v disjI1 [OF a]]
      invalid_rate_rejected [OF v disjI2 [OF z]]
      invalid_rate_rejected [OF v disjI2 [OF n]]
    by (intro conjI)
qed

text \<open>
  C6. If the start or the end string fails the pattern, the calculation ends with
  \<open>InvalidTimeFormat\<close>, whatever the rate input is: the check comes before the rate
  check and before any conversion or arithmetic, and no breakdown is produced.
\<close>

theorem invalid_time_rejected:
  assumes "\<not> validateTimeFormat s \<or> \<not> validateTimeFormat e"
  shows "calculateWage r s e = Some (Inl InvalidTimeFormat)"
  using assms by (auto simp: calculateWage_def)

theorem invalid_time_rejected_witness:
  "\<not> validateTimeFormat ''24:00'' \<and> \<not> validateTimeFormat ''9:00''
   \<and> calculateWage ''abc'' ''24:00'' ''17:00'' = Some (Inl InvalidTimeFormat)
   \<and> calculateWage ''1000'' ''09:00'' ''9:00'' = Some (Inl InvalidTimeFormat)"
  using more_valid_examples(4,5)
    invalid_time_rejected [OF disjI1 [OF more_valid_examples(4)], of "''abc''" "''17:00''"]
    invalid_time_rejected [OF disjI2 [OF more_valid_examples(5)], of "''1000''" "''09:00''"]
  by (intro conjI)

text \<open>
  C7. For the rate 1000 from 23:00 to 04:00 the calculation returns \<open>totalHours = 5\<close>; the
  sweep takes 20 samples and classifies all 20 as night (the samples on the hour see the
  hours 23, 0, 1, 2 and 3), so \<open>nightHours = 5\<close>, \<open>normalHours = 0\<close> and \<open>totalPay = 6250\<close>.
\<close>

theorem night_only_shift:
  "calculateWage ''1000'' ''23:00'' ''04:00''
     = Some (Inr \<lparr>totalHours = Fin 5, nightHours = Fin 5, normalHours = Fin 0,
                    normalPay = Fin 0, nightPay = Fin 6250, totalPay = Fin 6250\<rparr>)
   \<and> timeToDecimal ''23:00'' = Fin 23
   \<and> bucket_count 5 = 20
   \<and> filter (night_at (Fin 23)) [0..<20] = [0..<20]
   \<and> map (\<lambda>i. jmod (jadd (Fin 23) (Fin (of_nat i / 4))) (Fin 24)) [0, 4, 8, 12, 16]
       = [Fin 23, Fin 0, Fin 1, Fin 2, Fin 3]"
proof -
  have t: "timeToDecimal ''23:00'' = Fin 23"
    using time_value_bounds(1) [OF valid_examples(1)] by (simp only: time_value_examples)
  have f: "filter (night_at (Fin 23)) [0..<20] = [0..<20]"
    by (rule filter_True) (simp add: night_at_23)
  have h: "map (\<lambda>i. jmod (jadd (Fin 23) (Fin (of_nat i / 4))) (Fin 24)) [0, 4, 8, 12, 16]
       = [Fin 23, Fin 0, Fin 1, Fin 2, Fin 3]"
    using current_hour_23 [of 0] current_hour_23 [of 4] current_hour_23 [of 8]
      current_hour_23 [of 12] current_hour_23 [of 16]
    by simp
  show ?thesis using wage_23_04 t bucket_count_5 f h by (intro conjI)
qed

theorem night_only_shift_witness:
  "\<exists>b. calculateWage ''1000'' ''23:00'' ''04:00'' = Some (Inr b)
       \<and> totalHours b = Fin 5 \<and> nightHours b = Fin 5 \<and> normalHours b = Fin 0
       \<and> totalPay b = Fin 6250"
  using night_only_shift by simp

text \<open>
  C8, as amended. When the start and the end are the same valid string and the rate is
  accepted, the calculation returns a breakdown with \<open>totalHours = 0\<close>, \<open>nightHours = 0\<close>
  and \<open>normalHours = 0\<close>: the sweep takes no sample. An accepted rate is a positive finite
  number or the positive infinity; for a finite rate \<open>totalPay = 0\<close>, and for the infinite
  one \<open>totalPay\<close> is NaN.
\<close>

theorem zero_length_shift:
  assumes "validateTimeFormat s" and "rate_accepted r"
  shows "\<exists>b. calculateWage r s s = Some (Inr b)
           \<and> totalHours b = Fin 0 \<and> nightHours b = Fin 0 \<and> normalHours b = Fin 0
           \<and> ((\<exists>w. parseFloat r = Fin w \<and> 0 < w) \<or> parseFloat r = PosInf)
           \<and> ((\<exists>w. parseFloat r = Fin w) \<longrightarrow>
                 normalPay b = Fin 0 \<and> nightPay b = Fin 0 \<and> totalPay b = Fin 0)
           \<and> (parseFloat r = PosInf \<longrightarrow> totalPay b = NaN)"
proof -
  define b where "b = wage_of (parseFloat r) 0 0"
  have res: "calculateWage r s s = Some (Inr b)"
    unfolding b_def using assms by (rule same_time_wage)
  have hours: "totalHours b = Fin 0" "nightHours b = Fin 0" "normalHours b = Fin 0"
    by (simp_all add: b_def wage_of_def jsub_def)
  have fin: "normalPay b = Fin 0 \<and> nightPay b = Fin 0 \<and> totalPay b = Fin 0"
    if "\<exists>w. parseFloat r = Fin w"
  proof -
    from that obtain w where "parseFloat r = Fin w" ..
    then show ?thesis by (simp add: b_def wage_of_def jsub_def)
  qed
  have inf: "totalPay b = NaN" if "parseFloat r = PosInf"
    using that by (simp add: b_def wage_of_def jsub_def)
  show ?thesis
    using res hours rate_accepted_cases [OF assms(2)] fin inf by blast
qed

theorem zero_length_shift_witness:
  "validateTimeFormat ''09:30'' \<and> rate_accepted ''1000'' \<and> parseFloat ''1000'' = Fin 1000
   \<and> (\<exists>b. calculateWage ''1000'' ''09:30'' ''09:30'' = Some (Inr b)
         \<and> totalHours b = Fin 0 \<and> nightHours b = Fin 0 \<and> normalHours b = Fin 0
         \<and> totalPay b = Fin 0)"
proof -
  from zero_length_shift [OF more_valid_examples(3) rate_accepted_1000]
  obtain b where r: "calculateWage ''1000'' ''09:30'' ''09:30'' = Some (Inr b)"
    and h: "totalHours b = Fin 0" "nightHours b = Fin 0" "normalHours b = Fin 0"
    and f: "(\<exists>w. parseFloat ''1000'' = Fin w) \<longrightarrow>
              normalPay b = Fin 0 \<and> nightPay b = Fin 0 \<and> totalPay b = Fin 0"
    by blast
  have "\<exists>w. parseFloat ''1000'' = Fin w" using parseFloat_1000 ..
  with f have "normalPay b = Fin 0 \<and> nightPay b = Fin 0 \<and> totalPay b = Fin 0" by (rule mp)
  then have p: "totalPay b = Fin 0" by (elim conjE)
  have "\<exists>b. calculateWage ''1000'' ''09:30'' ''09:30'' = Some (Inr b)
         \<and> totalHours b = Fin 0 \<and> nightHours b = Fin 0 \<and> normalHours b = Fin 0
         \<and> totalPay b = Fin 0"
    using r h p by (intro exI [of _ b] conjI)
  then show ?thesis
    using more_valid_examples(3) rate_accepted_1000 parseFloat_1000 by (intro conjI)
qed

text \<open>
  The claim C8 as stated fails: the rate input \<open>Infinity\<close> passes the check of step 4
  (it is neither NaN nor \<open>\<le> 0\<close>), and with the same start and end time the pay is
  \<open>0 * Infinity\<close>, which is NaN, not 0.
\<close>

theorem zero_length_shift_infinite_rate:
  "validateTimeFormat ''09:30'' \<and> rate_accepted ''Infinity''
   \<and> (\<exists>b. calculateWage ''Infinity'' ''09:30'' ''09:30'' = Some (Inr b)
         \<and> totalHours b = Fin 0 \<and> nightHours b = Fin 0
         \<and> totalPay b = NaN \<and> totalPay b \<noteq> Fin 0)"
proof -
  define b where "b = wage_of PosInf 0 0"
  have "calculateWage ''Infinity'' ''09:30'' ''09:30'' = Some (Inr b)"
    using same_time_wage [OF more_valid_examples(3) rate_accepted_Infinity]
    by (simp only: parseFloat_Infinity b_def)
  moreover have "totalHours b = Fin 0" "nightHours b = Fin 0" "totalPay b = NaN"
    by (simp_all add: b_def wage_of_def jsub_def)
  ultimately have "\<exists>b. calculateWage ''Infinity'' ''09:30'' ''09:30'' = Some (Inr b)
         \<and> totalHours b = Fin 0 \<and> nightHours b = Fin 0
         \<and> totalPay b = NaN \<and> totalPay b \<noteq> Fin 0"
    by (intro exI [of _ b]) simp
  then show ?thesis
    using more_valid_examples(3) rate_accepted_Infinity by (intro conjI)
qed

text \<open>
  C9. The sweep ends for every pair of valid times: \<open>totalHours\<close> is below 24, the loop
  variable takes the values \<open>0, 1/4, 2/4, \<dots>\<close> exactly, and the loop body runs at most 96
  times. Every call of the calculation returns.
\<close>

theorem sweep_terminates:
  assumes "validateTimeFormat s" and "validateTimeFormat e"
  shows "\<exists>t n k. computeTotalHours (timeToDecimal s) (timeToDecimal e) = Fin t \<and> t < 24
           \<and> night_sweep (timeToDecimal s) (Fin t) (Fin 0) (Fin 0) 0 = Some (n, k)
           \<and> k = bucket_count t \<and> k \<le> 96
           \<and> (\<forall>r. \<exists>y. calculateWage r s e = Some y)"
proof -
  note sh = shift_hours_bounds [OF assms]
  have "shift_hours s e \<le> 24" using sh(3) by simp
  then have k: "bucket_count (shift_hours s e) \<le> 96" by (rule bucket_count_le)
  have sw: "night_sweep (timeToDecimal s) (Fin (shift_hours s e)) (Fin 0) (Fin 0) 0
      = Some (Fin (of_nat (shift_night_buckets s e) / 4), bucket_count (shift_hours s e))"
    using shift_sweep [OF assms] by (simp only: sh(1))
  have ret: "\<forall>r. \<exists>y. calculateWage r s e = Some y"
    by (simp add: calculateWage_returns)
  show ?thesis using sh(1,3) sw k ret by blast
qed

theorem sweep_terminates_witness:
  "validateTimeFormat ''23:00'' \<and> validateTimeFormat ''04:00''
   \<and> (\<exists>n k. night_sweep (Fin 23) (Fin 5) (Fin 0) (Fin 0) 0 = Some (n, k) \<and> k = 20 \<and> k \<le> 96)"
proof -
  have t: "timeToDecimal ''23:00'' = Fin 23"
    using time_value_bounds(1) [OF valid_examples(1)] by (simp only: time_value_examples)
  have c: "computeTotalHours (timeToDecimal ''23:00'') (timeToDecimal ''04:00'') = Fin 5"
    using shift_hours_bounds(1) [OF valid_examples(1,2)] by (simp only: shift_hours_23_04)
  from sweep_terminates [OF valid_examples(1,2)]
  obtain t n k where ct: "computeTotalHours (timeToDecimal ''23:00'') (timeToDecimal ''04:00'') = Fin t"
    and sw: "night_sweep (timeToDecimal ''23:00'') (Fin t) (Fin 0) (Fin 0) 0 = Some (n, k)"
    and k: "k = bucket_count t" "k \<le> 96"
    by blast
  from ct have t5: "t = 5" by (simp add: c)
  have "night_sweep (Fin 23) (Fin 5) (Fin 0) (Fin 0) 0 = Some (n, k)"
    using sw by (simp only: t t5)
  moreover have "k = 20" using k(1) by (simp add: t5 bucket_count_5)
  ultimately have "\<exists>n k. night_sweep (Fin 23) (Fin 5) (Fin 0) (Fin 0) 0 = Some (n, k) \<and> k = 20 \<and> k \<le> 96"
    using k(2) by blast
  then show ?thesis using valid_examples(1,2) by (intro conjI)
qed

text \<open>
  C10. For a string that passes the validation the conversion does not return NaN: it
  returns the binary64 value of \<open>hours + minutes / 60\<close> for the hour and the minute that
  the digits encode, a number in \<open>[0, 24)\<close> within \<open>2\<^sup>-\<^sup>4\<^sup>8\<close> of the exact quotient. The branch
  of the calculation that reports a NaN after the conversion is never taken.
\<close>

theorem conversion_never_nan:
  assumes "validateTimeFormat s"
  shows "\<not> isNaN (timeToDecimal s)
         \<and> hour_of s \<le> 23 \<and> minute_of s \<le> 59
         \<and> timeToDecimal s
             = jadd (Fin (of_nat (hour_of s))) (jdiv (Fin (of_nat (minute_of s))) (Fin 60))
         \<and> (\<exists>t. timeToDecimal s = Fin t \<and> 0 \<le> t \<and> t < 24
                \<and> \<bar>t - (of_nat (hour_of s) + of_nat (minute_of s) / 60)\<bar> \<le> 1 / 2 ^ 48)
         \<and> (\<forall>r e. calculateWage r s e \<noteq> Some (Inl InvalidTime))"
proof -
  note v = timeToDecimal_valid [OF assms]
  note d = decimalHours_error [OF v(2,3)]
  have nn: "\<not> isNaN (timeToDecimal s)" by (simp add: v(1) isNaN_def)
  have "(of_nat (minute_of s) :: rat) \<le> of_nat 59" using v(3) by (simp only: of_nat_le_iff)
  then have "\<bar>(of_nat (minute_of s) :: rat) / 60\<bar> \<le> 64" by simp
  then have q: "fl (of_nat (minute_of s) / 60) = Fin (rnd (of_nat (minute_of s) / 60))"
    by (rule fl_small)
  have "(of_nat (hour_of s) :: rat) \<le> of_nat 23" using v(2) by (simp only: of_nat_le_iff)
  then have "\<bar>(of_nat (hour_of s) :: rat) + rnd (of_nat (minute_of s) / 60)\<bar> \<le> 64"
    using d(4,5) by simp
  then have "fl (of_nat (hour_of s) + rnd (of_nat (minute_of s) / 60))
      = Fin (decimalHours (hour_of s) (minute_of s))"
    unfolding decimalHours_def by (rule fl_small)
  then have expr: "timeToDecimal s
      = jadd (Fin (of_nat (hour_of s))) (jdiv (Fin (of_nat (minute_of s))) (Fin 60))"
    by (simp add: v(1) q)
  have ex: "\<exists>t. timeToDecimal s = Fin t \<and> 0 \<le> t \<and> t < 24
                \<and> \<bar>t - (of_nat (hour_of s) + of_nat (minute_of s) / 60)\<bar> \<le> 1 / 2 ^ 48"
    using v(1) d(1,2,3) by blast
  have un: "\<forall>r e. calculateWage r s e \<noteq> Some (Inl InvalidTime)"
    by (simp add: calculateWage_never_InvalidTime)
  show ?thesis using nn v(2,3) expr ex un by (intro conjI)
qed

theorem conversion_never_nan_witness:
  "validateTimeFormat ''23:00'' \<and> \<not> isNaN (timeToDecimal ''23:00'')
   \<and> (\<exists>t. timeToDecimal ''23:00'' = Fin t \<and> 0 \<le> t \<and> t < 24)"
proof -
  from conversion_never_nan [OF valid_examples(1)]
  have "\<not> isNaN (timeToDecimal ''23:00'')"
    and "\<exists>t. timeToDecimal ''23:00'' = Fin t \<and> 0 \<le> t \<and> t < 24
           \<and> \<bar>t - (of_nat (hour_of ''23:00'') + of_nat (minute_of ''23:00'') / 60)\<bar> \<le> 1 / 2 ^ 48"
    by blast+
  then show ?thesis using valid_examples(1) by blast
qed

end
